theory Spec2Isabelle
  imports Main "HOL-Library.Multiset"
begin

section \<open>JavaScript values used by lib/mem\_analysis.js\<close>

text \<open>
  The flat arrays \<open>nodes\<close> and \<open>edges\<close> of a heap snapshot hold the unsigned
  integers that V8 serialises, so their elements are \<open>nat\<close>. A read \<open>xs[i]\<close> past
  the end of an array yields \<open>undefined\<close>: reads return an option, \<open>None\<close> being
  \<open>undefined\<close>. Arithmetic on \<open>undefined\<close> yields \<open>NaN\<close>, which is \<open>None\<close> as well
  wherever a number is expected. The only exception that the code can raise on such
  data is the \<open>TypeError\<close> of reading a property of \<open>undefined\<close>.
\<close>

datatype error = TypeError

text \<open>\<open>xs[i]\<close> for an index that is a number.\<close>

definition js_index :: "'a list \<Rightarrow> nat \<Rightarrow> 'a option" where
  "js_index xs i = (if i < length xs then Some (xs ! i) else None)"

text \<open>\<open>xs[k]\<close> where the key \<open>k\<close> is itself the result of a read: the key
  \<open>undefined\<close> names no element of an array.\<close>

definition js_index_opt :: "'a list \<Rightarrow> nat option \<Rightarrow> 'a option" where
  "js_index_opt xs k = (case k of None \<Rightarrow> None | Some i \<Rightarrow> js_index xs i)"

text \<open>\<open>xs.slice(s, e)\<close> for non-negative integers: both ends are clamped to the
  length, and an end before the start gives the empty array.\<close>

definition js_slice :: "'a list \<Rightarrow> nat \<Rightarrow> nat \<Rightarrow> 'a list" where
  "js_slice xs s e = take (e - s) (drop s xs)"

text \<open>A relative index that is \<open>NaN\<close> is read as 0 by \<open>slice\<close>.\<close>

definition js_slice_nan :: "'a list \<Rightarrow> nat option \<Rightarrow> nat option \<Rightarrow> 'a list" where
  "js_slice_nan xs s e =
     js_slice xs (case s of None \<Rightarrow> 0 | Some a \<Rightarrow> a) (case e of None \<Rightarrow> 0 | Some b \<Rightarrow> b)"

text \<open>\<open>a * b\<close> and \<open>a + b\<close> where an operand may be \<open>undefined\<close> or \<open>NaN\<close>:
  the result is \<open>NaN\<close> then.\<close>

definition js_mul :: "nat option \<Rightarrow> nat \<Rightarrow> nat option" where
  "js_mul a b = (case a of None \<Rightarrow> None | Some x \<Rightarrow> Some (x * b))"

definition js_add :: "nat option \<Rightarrow> nat option \<Rightarrow> nat option" where
  "js_add a b = (case a of None \<Rightarrow> None | Some x \<Rightarrow> (case b of None \<Rightarrow> None | Some y \<Rightarrow> Some (x + y)))"

text \<open>The result of \<open>a / b\<close> on non-negative integers, kept exact: an integer when
  \<open>b\<close> divides \<open>a\<close>, otherwise the pair of operands (a non-integral double), and
  the two special values of a division by zero.\<close>

datatype jsnum = Intg nat | Ratio nat nat | PosInf | NaN

definition js_div :: "nat option \<Rightarrow> nat \<Rightarrow> jsnum" where
  "js_div a b =
     (case a of None \<Rightarrow> NaN
      | Some x \<Rightarrow>
          if b = 0 then (if x = 0 then NaN else PosInf)
          else if b dvd x then Intg (x div b) else Ratio x b)"

text \<open>Decimal text of a number, as a template literal and \<open>String\<close> print a
  non-negative integer below \<open>10^21\<close>. From \<open>10^21\<close> on JavaScript prints the
  exponent notation (\<open>1e+21\<close>), which \<open>string_of_nat\<close> does not: the texts of
  the model are those of the code on snapshots whose numbers are below that bound, as
  are all the numbers that V8 writes, which are unsigned integers of 32 bits.\<close>

definition digit_char :: "nat \<Rightarrow> char" where
  "digit_char d = ''0123456789'' ! d"

function string_of_nat :: "nat \<Rightarrow> string" where
  "string_of_nat n =
     (if n < 10 then [digit_char n] else string_of_nat (n div 10) @ [digit_char (n mod 10)])"
  by pat_completeness auto
termination
  by (relation "measure (\<lambda>n. n)") auto

text \<open>\<open>`${v}`\<close> and \<open>String(v)\<close> for a value read from a numeric array.\<close>

definition js_string :: "nat option \<Rightarrow> string" where
  "js_string v = (case v of None \<Rightarrow> ''undefined'' | Some n \<Rightarrow> string_of_nat n)"

text \<open>\<open>`${s}`\<close> for a value read from the string table.\<close>

definition js_template :: "string option \<Rightarrow> string" where
  "js_template v = (case v of None \<Rightarrow> ''undefined'' | Some s \<Rightarrow> s)"

section \<open>The snapshot and the decoded graph\<close>

text \<open>The raw snapshot, the argument \<open>heapData\<close>. Of \<open>node_types\<close> and
  \<open>edge_types\<close> the code reads the element 0 only, the array of the type names.
  \<open>root_index\<close> is \<open>None\<close> when the snapshot declares no root.\<close>

record meta_t =
  node_fields :: "string list"
  node_types :: "string list list"
  edge_fields :: "string list"
  edge_types :: "string list list"

record snapshot_t =
  meta :: meta_t
  root_index :: "nat option"

record heap_data =
  snapshot :: snapshot_t
  nodes :: "nat list"
  edges :: "nat list"
  strings :: "string list"

text \<open>\<open>HeapGraphEdgeType.kElement\<close> and \<open>HeapGraphEdgeType.kHidden\<close> (lines 7 and
  12, from v8/include/v8-profiler.h), the two constants that the code uses.\<close>

definition kElement :: nat where "kElement = 1"
definition kHidden :: nat where "kHidden = 4"

text \<open>An element of \<open>desc_node.children\<close> (lines 72 to 77).\<close>

record desc_node_edge =
  e_index :: jsnum
  e_type :: "string option"
  name_or_index :: string
  to_node :: string

text \<open>The node record of lines 54 to 64. \<open>self_size\<close> and \<open>retain_size\<close> are
  \<open>Number(node[3])\<close>, which is \<open>NaN\<close> (\<open>None\<close>) when the stride has no column 3.
  \<open>retainedSize\<close> and \<open>distance\<close> are the two properties that
  \<open>peakLeakPoint\<close> adds to a node later; \<open>None\<close> in \<open>retainedSize\<close> is the absent
  property, in \<open>distance\<close> also the value \<open>undefined\<close>.\<close>

record desc_node =
  d_index :: jsnum
  d_type :: "string option"
  d_name :: "string option"
  d_id :: string
  self_size :: "nat option"
  retain_size :: "nat option"
  edge_count :: "nat option"
  trace_node_id :: "nat option"
  children :: "desc_node_edge list"
  retainedSize :: "int option"
  distance :: "int option"

text \<open>The entries of \<open>edgesMap\<close> (lines 80 to 105) and their elements.\<close>

record address_info =
  a_id :: string
  a_type :: "string option"
  a_name_or_index :: string

record edges_entry =
  from_ids :: "address_info list"
  to_ids :: "address_info list"

type_synonym heap_map = "jsnum \<rightharpoonup> desc_node"
type_synonym edges_map = "string \<rightharpoonup> edges_entry"

text \<open>What \<open>handleHeapData\<close> returns (line 118). \<open>heapMap\<close> is keyed by the
  \<open>index\<close> of a node, \<open>edgesMap\<close> by its \<open>id\<close>.\<close>

record heap_graph =
  heapMap :: heap_map
  heapArray :: "desc_node list"
  edgesMap :: edges_map
  rootID :: string
  rootIndex :: nat

section \<open>handleHeapData\<close>

text \<open>\<open>heapData.snapshot.root_index || 0\<close> and \<open>limit || 5\<close>: an absent value and
  the number 0 are both falsy.\<close>

definition js_or_default :: "nat option \<Rightarrow> nat \<Rightarrow> nat" where
  "js_or_default v d = (case v of None \<Rightarrow> d | Some n \<Rightarrow> if n = 0 then d else n)"

text \<open>Lines 82 to 93: the entry of the target gets the owner in its \<open>from_ids\<close>.\<close>

definition push_from :: "edges_map \<Rightarrow> string \<Rightarrow> address_info \<Rightarrow> edges_map" where
  "push_from em key info =
     (case em key of
        Some ent \<Rightarrow> em(key \<mapsto> ent\<lparr>from_ids := from_ids ent @ [info]\<rparr>)
      | None \<Rightarrow> em(key \<mapsto> \<lparr>from_ids = [info], to_ids = []\<rparr>))"

text \<open>Lines 96 to 105: the entry of the owner gets the target in its \<open>to_ids\<close>.\<close>

definition push_to :: "edges_map \<Rightarrow> string \<Rightarrow> address_info \<Rightarrow> edges_map" where
  "push_to em key info =
     (case em key of
        Some ent \<Rightarrow> em(key \<mapsto> ent\<lparr>to_ids := to_ids ent @ [info]\<rparr>)
      | None \<Rightarrow> em(key \<mapsto> \<lparr>from_ids = [], to_ids = [info]\<rparr>))"

text \<open>Lines 69 and 70: the label of an edge, from its raw type and its raw name field.
  \<open>Number(undefined)\<close> is \<open>NaN\<close>, which equals neither constant.\<close>

definition edge_label :: "heap_data \<Rightarrow> nat list \<Rightarrow> string" where
  "edge_label heapData node_edge =
     (if js_index node_edge 0 = Some kElement \<or> js_index node_edge 0 = Some kHidden
      then ''['' @ js_string (js_index node_edge 1) @ '']''
      else js_template (js_index_opt (strings heapData) (js_index node_edge 1)))"

text \<open>Lines 72 to 77: the edge record, \<open>tbl\<close> being \<open>edge_types[0]\<close>.\<close>

definition make_edge :: "heap_data \<Rightarrow> string list \<Rightarrow> nat list \<Rightarrow> desc_node_edge" where
  "make_edge heapData tbl node_edge =
     \<lparr>e_index = js_div (js_index node_edge 2) (length (node_fields (meta (snapshot heapData)))),
      e_type = js_index_opt tbl (js_index node_edge 0),
      name_or_index = edge_label heapData node_edge,
      to_node = ''@'' @ js_string (js_index_opt (nodes heapData)
                   (js_add (js_index node_edge 2) (Some 2)))\<rparr>"

text \<open>Lines 80 to 105: both ends of the edge are entered in \<open>edgesMap\<close>; \<open>nid\<close> is
  \<open>desc_node.id\<close>.\<close>

definition record_edge :: "string \<Rightarrow> edges_map \<Rightarrow> desc_node_edge \<Rightarrow> edges_map" where
  "record_edge nid em desc_edge =
     (let from_address_info =
            \<lparr>a_id = nid, a_type = e_type desc_edge, a_name_or_index = name_or_index desc_edge\<rparr>;
          em1 = push_from em (to_node desc_edge) from_address_info;
          to_address_info =
            \<lparr>a_id = to_node desc_edge, a_type = e_type desc_edge,
             a_name_or_index = name_or_index desc_edge\<rparr>
      in push_to em1 nid to_address_info)"

text \<open>The body of the inner loop (lines 68 to 105) for the edge that starts at position
  \<open>i\<close> of \<open>node_edges\<close>; the state is \<open>desc_node.children\<close> and \<open>edgesMap\<close>.
  Reading \<open>edge_types[0][...]\<close> throws when \<open>edge_types\<close> has no element 0.\<close>

definition edge_step ::
  "heap_data \<Rightarrow> string \<Rightarrow> nat list \<Rightarrow> nat \<Rightarrow> desc_node_edge list \<times> edges_map
     \<Rightarrow> error + desc_node_edge list \<times> edges_map" where
  "edge_step heapData nid node_edges i st =
     (let edge_fields_length = length (edge_fields (meta (snapshot heapData)));
          node_edge = js_slice node_edges i (i + edge_fields_length)
      in case js_index (edge_types (meta (snapshot heapData))) 0 of
           None \<Rightarrow> Inl TypeError
         | Some tbl \<Rightarrow>
             (let desc_edge = make_edge heapData tbl node_edge
              in Inr (fst st @ [desc_edge], record_edge nid (snd st) desc_edge)))"

text \<open>The inner loop of line 67. It advances by \<open>edge_fields.length\<close>, so it is a
  partial function: \<open>None\<close> is a run that never leaves the loop.\<close>

partial_function (option) edge_loop ::
  "heap_data \<Rightarrow> string \<Rightarrow> nat list \<Rightarrow> nat \<Rightarrow> desc_node_edge list \<times> edges_map
     \<Rightarrow> (error + desc_node_edge list \<times> edges_map) option" where
  "edge_loop heapData nid node_edges i st =
     (if i < length node_edges
      then (case edge_step heapData nid node_edges i st of
              Inl e \<Rightarrow> Some (Inl e)
            | Inr st' \<Rightarrow>
                edge_loop heapData nid node_edges (i + length (edge_fields (meta (snapshot heapData)))) st')
      else Some (Inr st))"

declare edge_loop.simps [code]

text \<open>The state of the outer loop: \<open>offset\<close> (\<open>None\<close> once it has become \<open>NaN\<close>),
  \<open>heapMap\<close>, \<open>heapArray\<close> and \<open>edgesMap\<close>.\<close>

record decode_state =
  offset :: "nat option"
  s_heapMap :: heap_map
  s_heapArray :: "desc_node list"
  s_edgesMap :: edges_map

text \<open>The node record of lines 50 to 64, before its edges are read. The columns are
  read at the fixed positions 0 to 5 of the stride.\<close>

definition make_node :: "heap_data \<Rightarrow> string list \<Rightarrow> nat \<Rightarrow> desc_node" where
  "make_node heapData tbl i =
     (let node_fields_length = length (node_fields (meta (snapshot heapData)));
          node = js_slice (nodes heapData) i (i + node_fields_length)
      in \<lparr>d_index = js_div (Some i) node_fields_length,
          d_type = js_index_opt tbl (js_index node 0),
          d_name = js_index_opt (strings heapData) (js_index node 1),
          d_id = ''@'' @ js_string (js_index node 2),
          self_size = js_index node 3,
          retain_size = js_index node 3,
          edge_count = js_index node 4,
          trace_node_id = js_index node 5,
          children = [],
          retainedSize = None,
          distance = None\<rparr>)"

text \<open>The body of the outer loop (lines 50 to 115) for the stride at \<open>i\<close>. Reading
  \<open>node_types[0][...]\<close> throws when \<open>node_types\<close> has no element 0.\<close>

definition node_step ::
  "heap_data \<Rightarrow> nat \<Rightarrow> decode_state \<Rightarrow> (error + decode_state) option" where
  "node_step heapData i st =
     (case js_index (node_types (meta (snapshot heapData))) 0 of
        None \<Rightarrow> Some (Inl TypeError)
      | Some tbl \<Rightarrow>
          (let desc = make_node heapData tbl i;
               span = js_mul (edge_count desc) (length (edge_fields (meta (snapshot heapData))));
               node_edges = js_slice_nan (edges heapData) (offset st) (js_add (offset st) span)
           in case edge_loop heapData (d_id desc) node_edges 0 ([], s_edgesMap st) of
                None \<Rightarrow> None
              | Some (Inl e) \<Rightarrow> Some (Inl e)
              | Some (Inr (ch, em)) \<Rightarrow>
                  (let desc' = desc\<lparr>children := ch\<rparr>
                   in Some (Inr \<lparr>offset = js_add (offset st) span,
                                 s_heapMap = (s_heapMap st)(d_index desc' \<mapsto> desc'),
                                 s_heapArray = s_heapArray st @ [desc'],
                                 s_edgesMap = em\<rparr>))))"

text \<open>The outer loop of line 48. It advances by \<open>node_fields.length\<close>; with an empty
  \<open>node_fields\<close> and a non-empty \<open>nodes\<close> it never ends.\<close>

partial_function (option) node_loop ::
  "heap_data \<Rightarrow> nat \<Rightarrow> decode_state \<Rightarrow> (error + decode_state) option" where
  "node_loop heapData i st =
     (if i < length (nodes heapData)
      then (case node_step heapData i st of
              None \<Rightarrow> None
            | Some (Inl e) \<Rightarrow> Some (Inl e)
            | Some (Inr st') \<Rightarrow>
                node_loop heapData (i + length (node_fields (meta (snapshot heapData)))) st')
      else Some (Inr st))"

declare node_loop.simps [code]

text \<open>\<open>handleHeapData\<close> (lines 23 to 119). \<open>None\<close> is a call that never returns,
  \<open>Some (Inl e)\<close> one that throws \<open>e\<close>.\<close>

definition handleHeapData :: "heap_data \<Rightarrow> (error + heap_graph) option" where
  "handleHeapData heapData =
     (let root = js_or_default (root_index (snapshot heapData)) 0;
          rid = ''@'' @ js_string (js_index (nodes heapData) (root + 2))
      in case node_loop heapData 0
                \<lparr>offset = Some 0, s_heapMap = Map.empty, s_heapArray = [],
                 s_edgesMap = Map.empty\<rparr> of
           None \<Rightarrow> None
         | Some (Inl e) \<Rightarrow> Some (Inl e)
         | Some (Inr st) \<Rightarrow>
             Some (Inr \<lparr>heapMap = s_heapMap st, heapArray = s_heapArray st,
                        edgesMap = s_edgesMap st, rootID = rid, rootIndex = root\<rparr>))"

section \<open>peakLeakPoint and fetchHeapUsage\<close>

text \<open>What \<open>peakLeakPoint\<close> reads from the \<open>JSHeapSnapshot\<close> object of the
  HeapSnapshotWorker library, which computes it from \<open>heapData\<close>: the retained sizes
  (byte counts) and the distances (hop counts, or the library's mark for an unreachable
  node), both arrays of integers, and the two statistics objects, which are only passed
  on. The library is not part of lib/mem\_analysis.js: its results are a parameter of
  the model.\<close>

record ('s, 'a) js_heap_snapshot =
  snap_retainedSizes :: "int list"
  snap_nodeDistances :: "int list"
  snap_statistics :: 's
  snap_aggregates :: 'a

text \<open>An element of \<open>leakPoint\<close> (lines 150 and 156).\<close>

record leak_entry =
  l_index :: nat
  l_id :: string
  l_size :: int

text \<open>The accumulator of the \<open>reduce\<close>; \<open>acc_length\<close> is its property \<open>length\<close>.\<close>

record ('s, 'a) leak_acc =
  leakPoint :: "leak_entry list"
  acc_length :: nat
  statistics :: 's
  aggregates :: 'a

text \<open>The comparison function of line 153.\<close>

definition leak_cmp :: "leak_entry \<Rightarrow> leak_entry \<Rightarrow> int" where
  "leak_cmp o' n = (if l_size o' < l_size n then 1 else - 1)"

text \<open>\<open>Array.prototype.sort\<close> with a comparison function (line 153). The comparison
  function of line 153 never returns 0, so it is not a consistent comparison of the
  language's specification, which then leaves the resulting order to the engine. The
  model is the sort of V8, the engine the package is written for, as it stands since
  the version 7.0 of V8 and runs on an array of fewer than 64 elements
  (third\_party/v8/builtins/array-sort.tq): the minimal run
  length is then the length of the array, so that \<open>CountAndMakeRun\<close> finds the run at
  the start of the array, reversing it when it is descending, and
  \<open>BinaryInsertionSort\<close> inserts the remaining elements one by one. On 64 elements or
  more V8 goes on to merge several such runs, which is not modelled: there the model
  agrees with V8 on the entries of the result and on the descending order of their
  sizes (which is all that the statements on the length, the filters and the order of
  the list use), and not necessarily on the order of entries of equal size.

  \<open>extend_run\<close> is the loop of \<open>CountAndMakeRun\<close>: from the elements after the first
  two it splits off those that continue the run.\<close>

fun extend_run ::
  "('a \<Rightarrow> 'a \<Rightarrow> int) \<Rightarrow> bool \<Rightarrow> 'a \<Rightarrow> 'a list \<Rightarrow> 'a list \<times> 'a list" where
  "extend_run comparefn isDescending previousElement [] = ([], [])"
| "extend_run comparefn isDescending previousElement (currentElement # rest) =
     (let order = comparefn currentElement previousElement
      in if (if isDescending then order \<ge> 0 else order < 0)
         then ([], currentElement # rest)
         else (let found = extend_run comparefn isDescending currentElement rest
               in (currentElement # fst found, snd found)))"

text \<open>The binary search of \<open>BinaryInsertionSort\<close> for the place of \<open>pivot\<close> in the sorted
  part \<open>work\<close>, between \<open>left\<close> and \<open>right\<close>.\<close>

function find_insertion ::
  "('a \<Rightarrow> 'a \<Rightarrow> int) \<Rightarrow> 'a \<Rightarrow> 'a list \<Rightarrow> nat \<Rightarrow> nat \<Rightarrow> nat" where
  "find_insertion comparefn pivot work left right =
     (if left < right
      then (let mid = left + (right - left) div 2
            in if comparefn pivot (work ! mid) < 0
               then find_insertion comparefn pivot work left mid
               else find_insertion comparefn pivot work (mid + 1) right)
      else left)"
  by pat_completeness auto

termination
  by (relation "measure (\<lambda>(comparefn, pivot, work, left, right). right - left)") auto

declare find_insertion.simps [simp del]

text \<open>One round of \<open>BinaryInsertionSort\<close>: the elements from the place found on move one
  position to the right and \<open>pivot\<close> takes the place.\<close>

definition binary_insert :: "('a \<Rightarrow> 'a \<Rightarrow> int) \<Rightarrow> 'a list \<Rightarrow> 'a \<Rightarrow> 'a list" where
  "binary_insert comparefn work pivot =
     (let left = find_insertion comparefn pivot work 0 (length work)
      in take left work @ pivot # drop left work)"

definition js_sort :: "('a \<Rightarrow> 'a \<Rightarrow> int) \<Rightarrow> 'a list \<Rightarrow> 'a list" where
  "js_sort comparefn xs =
     (case xs of
        elementHigh # elementLow # rest \<Rightarrow>
          (let isDescending = comparefn elementLow elementHigh < 0;
               found = extend_run comparefn isDescending elementLow rest;
               run = elementHigh # elementLow # fst found
           in foldl (binary_insert comparefn) (if isDescending then rev run else run) (snd found))
      | _ \<Rightarrow> xs)"

text \<open>The callback of the \<open>reduce\<close> (lines 142 to 161) on the heap map and the
  accumulator \<open>pre\<close>. It throws when \<open>heapMap[index]\<close> is missing, and when the list
  is empty where its last element is read.\<close>

definition leak_step ::
  "nat \<Rightarrow> int list \<Rightarrow> nat \<Rightarrow> heap_map \<times> ('s, 'a) leak_acc \<Rightarrow> int \<Rightarrow> nat
     \<Rightarrow> error + heap_map \<times> ('s, 'a) leak_acc" where
  "leak_step root distancesList limit st next index =
     (case fst st (Intg index) of
        None \<Rightarrow> Inl TypeError
      | Some nd \<Rightarrow>
          (let d = js_index distancesList index;
               hm = (fst st)(Intg index \<mapsto> nd\<lparr>retainedSize := Some next, distance := d\<rparr>);
               pre = snd st;
               entry = \<lparr>l_index = index, l_id = d_id nd, l_size = next\<rparr>
           in if index = root then Inr (hm, pre)
              else if (case d of None \<Rightarrow> False | Some v \<Rightarrow> v \<le> 1 \<or> v \<ge> 100000000)
              then Inr (hm, pre)
              else if acc_length pre < limit
              then Inr (hm, pre\<lparr>leakPoint := leakPoint pre @ [entry],
                                acc_length := acc_length pre + 1\<rparr>)
              else (let sorted = js_sort leak_cmp (leakPoint pre)
                    in if sorted = [] then Inl TypeError
                       else if l_size (last sorted) < next
                       then Inr (hm, pre\<lparr>leakPoint := butlast sorted @ [entry]\<rparr>)
                       else Inr (hm, pre\<lparr>leakPoint := sorted\<rparr>))))"

text \<open>\<open>retainedSizeList.reduce\<close>, from the element at position \<open>index\<close> on.\<close>

fun leak_reduce ::
  "nat \<Rightarrow> int list \<Rightarrow> nat \<Rightarrow> int list \<Rightarrow> nat \<Rightarrow> heap_map \<times> ('s, 'a) leak_acc
     \<Rightarrow> error + heap_map \<times> ('s, 'a) leak_acc" where
  "leak_reduce root distancesList limit [] index st = Inr st"
| "leak_reduce root distancesList limit (next # rest) index st =
     (case leak_step root distancesList limit st next index of
        Inl e \<Rightarrow> Inl e
      | Inr st' \<Rightarrow> leak_reduce root distancesList limit rest (Suc index) st')"

text \<open>\<open>peakLeakPoint(rootIndex, heapData, heapMap, limit)\<close>, with the
  \<open>JSHeapSnapshot\<close> built from \<open>heapData\<close> in place of \<open>heapData\<close>. \<open>limit\<close> is a
  count, or \<open>None\<close> when the argument is omitted. The result is the heap map, whose
  nodes the call annotates, and the accumulator.\<close>

definition peakLeakPoint ::
  "nat \<Rightarrow> ('s, 'a) js_heap_snapshot \<Rightarrow> heap_map \<Rightarrow> nat option
     \<Rightarrow> error + heap_map \<times> ('s, 'a) leak_acc" where
  "peakLeakPoint root jsHeapSnapShot hm limit =
     leak_reduce root (snap_nodeDistances jsHeapSnapShot) (js_or_default limit 5)
       (snap_retainedSizes jsHeapSnapShot) 0
       (hm, \<lparr>leakPoint = [], acc_length = 0,
             statistics = snap_statistics jsHeapSnapShot,
             aggregates = snap_aggregates jsHeapSnapShot\<rparr>)"

text \<open>\<open>fetchHeapUsage\<close> (lines 171 to 176) and the object it returns.\<close>

record ('s, 'a) report =
  r_heapMap :: heap_map
  r_leakPoint :: "leak_entry list"
  r_statistics :: 's
  r_rootIndex :: nat
  r_aggregates :: 'a

definition fetchHeapUsage ::
  "('s, 'a) js_heap_snapshot \<Rightarrow> heap_data \<Rightarrow> nat option \<Rightarrow> (error + ('s, 'a) report) option" where
  "fetchHeapUsage jsHeapSnapShot heapData limit =
     (case handleHeapData heapData of
        None \<Rightarrow> None
      | Some (Inl e) \<Rightarrow> Some (Inl e)
      | Some (Inr g) \<Rightarrow>
          Some (case peakLeakPoint (rootIndex g) jsHeapSnapShot (heapMap g) limit of
                  Inl e \<Rightarrow> Inl e
                | Inr res \<Rightarrow>
                    Inr \<lparr>r_heapMap = fst res, r_leakPoint = leakPoint (snd res),
                         r_statistics = statistics (snd res), r_rootIndex = rootIndex g,
                         r_aggregates = aggregates (snd res)\<rparr>))"

section \<open>Notions used in the statements\<close>

subsection \<open>The ranking\<close>

text \<open>The test of lines 145 and 147: the node at \<open>index\<close> is neither the root nor
  skipped for its distance. A distance that is \<open>undefined\<close> compares false both ways.\<close>

definition passes :: "nat \<Rightarrow> int list \<Rightarrow> nat \<Rightarrow> bool" where
  "passes root distancesList index =
     (index \<noteq> root \<and>
      \<not> (case js_index distancesList index of None \<Rightarrow> False | Some v \<Rightarrow> v \<le> 1 \<or> v \<ge> 100000000))"

text \<open>The indices of the first \<open>n\<close> nodes that the tests of lines 145 and 147 let
  through, in the order of the \<open>reduce\<close>.\<close>

definition candidates :: "nat \<Rightarrow> int list \<Rightarrow> nat \<Rightarrow> nat list" where
  "candidates root distancesList n = filter (passes root distancesList) [0..<n]"

text \<open>The entry that line 150 or 156 pushes for the node at \<open>index\<close>.\<close>

definition new_entry :: "heap_map \<Rightarrow> nat \<Rightarrow> int \<Rightarrow> leak_entry" where
  "new_entry hm index next =
     \<lparr>l_index = index, l_id = d_id (the (hm (Intg index))), l_size = next\<rparr>"

text \<open>A list in descending order of \<open>size\<close>, and the smallest \<open>size\<close> of a
  list.\<close>

definition desc_by_size :: "leak_entry list \<Rightarrow> bool" where
  "desc_by_size xs = sorted_wrt (\<lambda>a b. l_size b \<le> l_size a) xs"

definition min_size :: "leak_entry list \<Rightarrow> int" where
  "min_size xs = Min (l_size ` set xs)"


text \<open>What holds of the heap map and the accumulator before the callback runs on the
  element at \<open>j\<close>, when the heap map has the \<open>n\<close> nodes of the graph.\<close>

definition rank_inv ::
  "nat \<Rightarrow> int list \<Rightarrow> nat \<Rightarrow> nat \<Rightarrow> nat \<Rightarrow> heap_map \<times> ('s, 'a) leak_acc \<Rightarrow> bool" where
  "rank_inv root D L n j s \<longleftrightarrow>
     (\<forall>k<n. fst s (Intg k) \<noteq> None) \<and>
     acc_length (snd s) = length (leakPoint (snd s)) \<and>
     length (leakPoint (snd s)) \<le> L \<and>
     (\<forall>e \<in> set (leakPoint (snd s)). l_index e < j \<and> passes root D (l_index e))"

text \<open>The same for the order of the list: the identities in the heap map are those of
  the start \<open>hm0\<close>; while the candidates met so far fit, the list holds them in the
  order of the nodes; once they do not, the list is full and, but for its last entry,
  in descending order.\<close>

definition order_inv ::
  "nat \<Rightarrow> int list \<Rightarrow> int list \<Rightarrow> nat \<Rightarrow> heap_map \<Rightarrow> nat \<Rightarrow> heap_map \<times> ('s, 'a) leak_acc \<Rightarrow> bool" where
  "order_inv root D R L hm0 j s \<longleftrightarrow>
     (\<forall>k. map_option d_id (fst s (Intg k)) = map_option d_id (hm0 (Intg k))) \<and>
     acc_length (snd s) = length (leakPoint (snd s)) \<and>
     (length (candidates root D j) \<le> L \<longrightarrow>
        leakPoint (snd s) = map (\<lambda>k. new_entry hm0 k (R ! k)) (candidates root D j)) \<and>
     (L < length (candidates root D j) \<longrightarrow>
        length (leakPoint (snd s)) = L \<and> desc_by_size (butlast (leakPoint (snd s))))"

subsection \<open>The decoder\<close>

text \<open>An array cut into pieces of \<open>n\<close> elements, the last one shorter when the
  length is no multiple of \<open>n\<close>: the pieces that the inner loop reads.\<close>

function chunks :: "nat \<Rightarrow> 'a list \<Rightarrow> 'a list list" where
  "chunks n xs = (if n = 0 \<or> xs = [] then [] else take n xs # chunks n (drop n xs))"
  by pat_completeness auto

termination
  by (relation "measure (\<lambda>(n, xs). length xs)") auto

declare chunks.simps [simp del]

text \<open>The span of the edges of the node whose stride starts at \<open>i\<close>:
  \<open>edge_count * edge_fields.length\<close>.\<close>

definition node_span :: "heap_data \<Rightarrow> nat \<Rightarrow> nat option" where
  "node_span heapData i =
     js_mul (js_index (js_slice (nodes heapData) i
                         (i + length (node_fields (meta (snapshot heapData))))) 4)
       (length (edge_fields (meta (snapshot heapData))))"

text \<open>The node that the outer loop builds for the stride at \<open>i\<close> when the cursor
  into \<open>edges\<close> is \<open>off\<close>.\<close>

definition decoded_node ::
  "heap_data \<Rightarrow> string list \<Rightarrow> string list \<Rightarrow> nat \<Rightarrow> nat option \<Rightarrow> desc_node" where
  "decoded_node heapData tbl etbl i off =
     (make_node heapData tbl i)
       \<lparr>children :=
          map (make_edge heapData etbl)
            (chunks (length (edge_fields (meta (snapshot heapData))))
               (js_slice_nan (edges heapData) off (js_add off (node_span heapData i))))\<rparr>"

text \<open>The cursor before the node of index \<open>k\<close>.\<close>

fun offset_at :: "heap_data \<Rightarrow> nat \<Rightarrow> nat option" where
  "offset_at heapData 0 = Some 0"
| "offset_at heapData (Suc k) =
     js_add (offset_at heapData k)
       (node_span heapData (k * length (node_fields (meta (snapshot heapData)))))"

text \<open>The number of strides that the outer loop visits.\<close>

definition stride_count :: "heap_data \<Rightarrow> nat" where
  "stride_count heapData =
     (length (nodes heapData) + length (node_fields (meta (snapshot heapData))) - 1)
       div length (node_fields (meta (snapshot heapData)))"

text \<open>The nodes from the stride of index \<open>k\<close> on.\<close>

definition decoded_nodes :: "heap_data \<Rightarrow> string list \<Rightarrow> string list \<Rightarrow> nat \<Rightarrow> desc_node list" where
  "decoded_nodes heapData tbl etbl k =
     map (\<lambda>m. decoded_node heapData tbl etbl
                (m * length (node_fields (meta (snapshot heapData)))) (offset_at heapData m))
       [k..<stride_count heapData]"

text \<open>What one node adds to \<open>heapMap\<close> and to \<open>edgesMap\<close>.\<close>

definition put_node :: "heap_map \<Rightarrow> desc_node \<Rightarrow> heap_map" where
  "put_node hm nd = hm(d_index nd \<mapsto> nd)"

definition record_node :: "edges_map \<Rightarrow> desc_node \<Rightarrow> edges_map" where
  "record_node em nd = foldl (record_edge (d_id nd)) em (children nd)"

text \<open>The graph that \<open>handleHeapData\<close> returns, given the two type tables.\<close>

definition decoded_graph :: "heap_data \<Rightarrow> string list \<Rightarrow> string list \<Rightarrow> heap_graph" where
  "decoded_graph heapData tbl etbl =
     \<lparr>heapMap = foldl put_node Map.empty (decoded_nodes heapData tbl etbl 0),
      heapArray = decoded_nodes heapData tbl etbl 0,
      edgesMap = foldl record_node Map.empty (decoded_nodes heapData tbl etbl 0),
      rootID = ''@'' @ js_string (js_index (nodes heapData)
                 (js_or_default (root_index (snapshot heapData)) 0 + 2)),
      rootIndex = js_or_default (root_index (snapshot heapData)) 0\<rparr>"

text \<open>\<open>edgesMap\<close> only grows: an entry stays, and its two arrays keep what they hold.\<close>

definition em_le :: "edges_map \<Rightarrow> edges_map \<Rightarrow> bool" where
  "em_le em em' \<longleftrightarrow>
     (\<forall>k ent. em k = Some ent \<longrightarrow>
        (\<exists>ent'. em' k = Some ent' \<and> set (from_ids ent) \<subseteq> set (from_ids ent') \<and>
           set (to_ids ent) \<subseteq> set (to_ids ent')))"

text \<open>Both ends of the edge \<open>e\<close> of the node \<open>nid\<close> are entered in \<open>em\<close>.\<close>

definition edge_ok :: "edges_map \<Rightarrow> string \<Rightarrow> desc_node_edge \<Rightarrow> bool" where
  "edge_ok em nid e \<longleftrightarrow>
     (\<exists>ent. em (to_node e) = Some ent \<and>
        \<lparr>a_id = nid, a_type = e_type e, a_name_or_index = name_or_index e\<rparr> \<in> set (from_ids ent)) \<and>
     (\<exists>ent. em nid = Some ent \<and>
        \<lparr>a_id = to_node e, a_type = e_type e, a_name_or_index = name_or_index e\<rparr> \<in> set (to_ids ent))"

text \<open>Every decoded edge of a graph, node after node.\<close>

definition all_children :: "heap_graph \<Rightarrow> desc_node_edge list" where
  "all_children g = concat (map children (heapArray g))"

text \<open>The root of a graph as decoded, beside the index and the identity of every
  node.\<close>

definition root_summary :: "heap_graph \<Rightarrow> nat \<times> string \<times> (jsnum \<times> string) list" where
  "root_summary g = (rootIndex g, rootID g, map (\<lambda>nd. (d_index nd, d_id nd)) (heapArray g))"

text \<open>The positions of a type table that hold the names \<open>element\<close> and \<open>hidden\<close>.\<close>

definition bracket_positions :: "string list \<Rightarrow> nat list" where
  "bracket_positions tbl =
     filter (\<lambda>t. tbl ! t = ''element'' \<or> tbl ! t = ''hidden'') [0..<length tbl]"

text \<open>The part of \<open>edges\<close> that the inner loop reads for the node of index \<open>k\<close>
  (line 66): from the cursor before the node up to the cursor after it, as \<open>slice\<close>
  takes them, a cursor that is \<open>NaN\<close> being read as 0 and the end stopping at the
  length of \<open>edges\<close>.\<close>

definition edges_from :: "heap_data \<Rightarrow> nat \<Rightarrow> nat" where
  "edges_from heapData k = (case offset_at heapData k of None \<Rightarrow> 0 | Some a \<Rightarrow> a)"

definition edges_to :: "heap_data \<Rightarrow> nat \<Rightarrow> nat" where
  "edges_to heapData k =
     min (case offset_at heapData (Suc k) of None \<Rightarrow> 0 | Some b \<Rightarrow> b) (length (edges heapData))"

text \<open>The record of the edge \<open>j\<close> of the node \<open>k\<close> (line 68): it starts at the position
  \<open>edge_start\<close> of \<open>edges\<close> and ends before \<open>edge_stop\<close>; \<open>raw_edge_field\<close> is
  its element \<open>f\<close>, \<open>node_edge[f]\<close>, which is \<open>undefined\<close> when the record ends before
  it. The element 0 is the raw type and the element 1 the raw name field.\<close>

definition edge_start :: "heap_data \<Rightarrow> nat \<Rightarrow> nat \<Rightarrow> nat" where
  "edge_start heapData k j =
     edges_from heapData k + j * length (edge_fields (meta (snapshot heapData)))"

definition edge_stop :: "heap_data \<Rightarrow> nat \<Rightarrow> nat \<Rightarrow> nat" where
  "edge_stop heapData k j =
     min (edge_start heapData k j + length (edge_fields (meta (snapshot heapData))))
       (edges_to heapData k)"

definition raw_edge_field :: "heap_data \<Rightarrow> nat \<Rightarrow> nat \<Rightarrow> nat \<Rightarrow> nat option" where
  "raw_edge_field heapData k j f =
     (if edge_start heapData k j + f < edge_stop heapData k j
      then Some (edges heapData ! (edge_start heapData k j + f)) else None)"

text \<open>A snapshot with another list of node field names.\<close>

definition with_node_fields :: "string list \<Rightarrow> heap_data \<Rightarrow> heap_data" where
  "with_node_fields names heapData =
     heapData\<lparr>snapshot := (snapshot heapData)
       \<lparr>meta := (meta (snapshot heapData))\<lparr>node_fields := names\<rparr>\<rparr>\<rparr>"

subsection \<open>The decoding by declared columns\<close>

text \<open>The decoding that the specification describes, for comparison with
  \<open>make_node\<close>: the column of a field is the position of its name in
  \<open>snapshot.meta.node_fields\<close>, and every field of the node is read at the column
  declared under its name.\<close>

fun field_column :: "string list \<Rightarrow> string \<Rightarrow> nat option" where
  "field_column [] name = None"
| "field_column (f # fs) name =
     (if f = name then Some 0 else map_option Suc (field_column fs name))"

definition schema_node :: "heap_data \<Rightarrow> string list \<Rightarrow> nat \<Rightarrow> desc_node" where
  "schema_node heapData tbl i =
     (let fields = node_fields (meta (snapshot heapData));
          node = js_slice (nodes heapData) i (i + length fields)
      in \<lparr>d_index = js_div (Some i) (length fields),
          d_type = js_index_opt tbl (js_index_opt node (field_column fields ''type'')),
          d_name = js_index_opt (strings heapData)
                     (js_index_opt node (field_column fields ''name'')),
          d_id = ''@'' @ js_string (js_index_opt node (field_column fields ''id'')),
          self_size = js_index_opt node (field_column fields ''self_size''),
          retain_size = js_index_opt node (field_column fields ''self_size''),
          edge_count = js_index_opt node (field_column fields ''edge_count''),
          trace_node_id = js_index_opt node (field_column fields ''trace_node_id''),
          children = [],
          retainedSize = None,
          distance = None\<rparr>)"

section \<open>Example inputs\<close>

text \<open>A node of index \<open>k\<close> without edges.\<close>

definition ex_node :: "nat \<Rightarrow> desc_node" where
  "ex_node k =
     \<lparr>d_index = Intg k, d_type = Some ''object'', d_name = Some ''n'',
      d_id = ''@'' @ js_string (Some (2 * k + 1)), self_size = Some 8, retain_size = Some 8,
      edge_count = Some 0, trace_node_id = Some 0, children = [],
      retainedSize = None, distance = None\<rparr>"

text \<open>A heap map of \<open>n\<close> nodes.\<close>

definition ex_heapMap :: "nat \<Rightarrow> heap_map" where
  "ex_heapMap n = (\<lambda>k. case k of Intg i \<Rightarrow> if i < n then Some (ex_node i) else None | _ \<Rightarrow> None)"

text \<open>Five nodes: the root, a node at distance 1, two deeper nodes and one that is
  unreachable.\<close>

definition ex_engine :: "(unit, unit) js_heap_snapshot" where
  "ex_engine =
     \<lparr>snap_retainedSizes = [5000, 10, 300, 200, 400],
      snap_nodeDistances = [0, 1, 2, 3, 100000000],
      snap_statistics = (), snap_aggregates = ()\<rparr>"

text \<open>Five nodes, four of them candidates, two of equal size; and the list once
  \<open>reduce\<close> has passed the nodes 0 to 2 with the limit 2.\<close>

definition ex_ties :: "(unit, unit) js_heap_snapshot" where
  "ex_ties =
     \<lparr>snap_retainedSizes = [5000, 300, 200, 200, 900],
      snap_nodeDistances = [0, 2, 2, 3, 4],
      snap_statistics = (), snap_aggregates = ()\<rparr>"




text \<open>The layout that V8 writes: six fields to a node, three to an edge.\<close>

definition ex_meta :: meta_t where
  "ex_meta =
     \<lparr>node_fields = [''type'', ''name'', ''id'', ''self_size'', ''edge_count'', ''trace_node_id''],
      node_types = [[''hidden'', ''array'', ''string'', ''object'']],
      edge_fields = [''type'', ''name_or_index'', ''to_node''],
      edge_types = [[''context'', ''element'', ''property'', ''internal'', ''hidden'',
                     ''shortcut'', ''weak'']]\<rparr>"

text \<open>Eight nodes in a chain from the root, each with one edge to the next.\<close>

definition ex_chain :: heap_data where
  "ex_chain =
     \<lparr>snapshot = \<lparr>meta = ex_meta, root_index = None\<rparr>,
      nodes = [3, 0, 1, 0, 1, 0,    3, 1, 3, 10, 1, 0,   1, 2, 5, 20, 1, 0,
               3, 3, 7, 30, 1, 0,   3, 4, 9, 40, 1, 0,   2, 5, 11, 50, 1, 0,
               3, 6, 13, 60, 1, 0,  3, 7, 15, 70, 0, 0],
      edges = [2, 1, 6,   1, 3, 12,   4, 0, 18,   2, 4, 24,   3, 5, 30,   0, 6, 36,   6, 7, 42],
      strings = [''root'', ''a'', ''b'', ''c'', ''d'', ''e'', ''f'', ''g'']\<rparr>"

text \<open>Retained sizes and distances for the chain.\<close>

definition ex_chain_engine :: "(unit, unit) js_heap_snapshot" where
  "ex_chain_engine =
     \<lparr>snap_retainedSizes = [280, 280, 270, 250, 220, 180, 130, 70],
      snap_nodeDistances = [0, 1, 2, 3, 4, 5, 6, 7],
      snap_statistics = (), snap_aggregates = ()\<rparr>"

text \<open>The chain with its root declared at the flat position 6, where the stride of the
  node of index 1 starts.\<close>

definition ex_rooted :: heap_data where
  "ex_rooted = ex_chain\<lparr>snapshot := \<lparr>meta = ex_meta, root_index = Some 6\<rparr>\<rparr>"

text \<open>Node 0 declares two edges, a span of 6, and \<open>edges\<close> holds 4 numbers.\<close>

definition ex_truncated :: heap_data where
  "ex_truncated =
     \<lparr>snapshot = \<lparr>meta = ex_meta, root_index = None\<rparr>,
      nodes = [3, 0, 1, 0, 2, 0,    3, 1, 3, 10, 1, 0],
      edges = [2, 1, 6,   1],
      strings = [''root'', ''a'']\<rparr>"

text \<open>Two nodes and two edges under an edge type table that names position 0
  \<open>element\<close> and position 1 \<open>context\<close>.\<close>

definition ex_permuted :: heap_data where
  "ex_permuted =
     \<lparr>snapshot =
        \<lparr>meta = ex_meta\<lparr>edge_types := [[''element'', ''context'', ''property'', ''internal'',
                                           ''hidden'', ''shortcut'', ''weak'']]\<rparr>,
         root_index = None\<rparr>,
      nodes = [3, 0, 1, 0, 2, 0,    3, 1, 3, 10, 0, 0],
      edges = [0, 1, 6,   1, 7, 6],
      strings = [''root'', ''a'']\<rparr>"

text \<open>Two nodes without edges, declared with the name before the type.\<close>

definition ex_swapped :: heap_data where
  "ex_swapped =
     \<lparr>snapshot =
        \<lparr>meta = ex_meta\<lparr>node_fields := [''name'', ''type'', ''id'', ''self_size'',
                                          ''edge_count'', ''trace_node_id'']\<rparr>,
         root_index = None\<rparr>,
      nodes = [0, 3, 1, 0, 0, 0,    1, 2, 3, 10, 0, 0],
      edges = [],
      strings = [''root'', ''a'']\<rparr>"

section \<open>The sort\<close>

lemma extend_run_append: "fst (extend_run c d p xs) @ snd (extend_run c d p xs) = xs"
  by (induction xs arbitrary: p) (auto simp: Let_def)

lemma find_insertion_bounds:
  "left \<le> right \<Longrightarrow> left \<le> find_insertion c p s left right \<and> find_insertion c p s left right \<le> right"
proof (induction c p s left right rule: find_insertion.induct)
  case (1 c p s left right)
  show ?case
  proof (cases "left < right")
    case False
    then show ?thesis using "1.prems" by (subst find_insertion.simps, subst (2) find_insertion.simps) simp
  next
    case True
    let ?mid = "left + (right - left) div 2"
    have m: "left \<le> ?mid" "?mid < right" using True by auto
    show ?thesis
    proof (cases "c p (s ! ?mid) < 0")
      case c: True
      have "find_insertion c p s left right = find_insertion c p s left ?mid"
        using True c by (subst find_insertion.simps) (simp add: Let_def)
      moreover have "left \<le> find_insertion c p s left ?mid \<and> find_insertion c p s left ?mid \<le> ?mid"
        using "1.IH"(1) [OF True refl c] m by simp
      ultimately show ?thesis using m by simp
    next
      case c: False
      have "find_insertion c p s left right = find_insertion c p s (?mid + 1) right"
        using True c by (subst find_insertion.simps) (simp add: Let_def)
      moreover have "?mid + 1 \<le> find_insertion c p s (?mid + 1) right \<and>
                     find_insertion c p s (?mid + 1) right \<le> right"
        using "1.IH"(2) [OF True refl c] m by simp
      ultimately show ?thesis using m by simp
    qed
  qed
qed

lemma mset_binary_insert: "mset (binary_insert c s p) = add_mset p (mset s)"
proof -
  have "mset (take n s @ p # drop n s) = add_mset p (mset s)" for n
    by (metis append_take_drop_id mset.simps(2) mset_append union_mset_add_mset_right)
  then show ?thesis by (simp add: binary_insert_def Let_def)
qed

lemma mset_foldl_binary_insert: "mset (foldl (binary_insert c) s xs) = mset s + mset xs"
  by (induction xs arbitrary: s) (simp_all add: mset_binary_insert)

lemma mset_js_sort: "mset (js_sort c xs) = mset xs"
proof (cases xs)
  case Nil
  then show ?thesis by (simp add: js_sort_def)
next
  case (Cons a ys)
  show ?thesis
  proof (cases ys)
    case Nil
    then show ?thesis using Cons by (simp add: js_sort_def)
  next
    case (Cons b rest)
    have "mset (fst (extend_run c d b rest)) + mset (snd (extend_run c d b rest)) = mset rest" for d
      using extend_run_append [of c d b rest] by (metis mset_append)
    then show ?thesis
      using \<open>xs = a # ys\<close> Cons
      by (simp add: js_sort_def Let_def mset_foldl_binary_insert)
  qed
qed

lemma set_js_sort: "set (js_sort c xs) = set xs"
  using mset_js_sort [of c xs] by (metis set_mset_mset)

lemma length_js_sort: "length (js_sort c xs) = length xs"
  using mset_js_sort [of c xs] by (metis size_mset)

lemma js_sort_Nil_iff: "js_sort c xs = [] \<longleftrightarrow> xs = []"
  using length_js_sort [of c xs] by (metis length_0_conv)


lemma extend_run_descending:
  "sorted_wrt (\<lambda>a b. l_size a \<le> l_size b) (p # fst (extend_run leak_cmp True p xs))"
proof (induction xs arbitrary: p)
  case Nil
  show ?case by simp
next
  case (Cons x xs)
  show ?case
  proof (cases "l_size x < l_size p")
    case True
    then show ?thesis by (simp add: leak_cmp_def)
  next
    case False
    then have c: "\<not> leak_cmp x p \<ge> 0" by (simp add: leak_cmp_def)
    have "sorted_wrt (\<lambda>a b. l_size a \<le> l_size b)
            (x # fst (extend_run leak_cmp True x xs))"
      by (rule Cons.IH)
    then show ?thesis
      using False c by (auto simp: Let_def)
  qed
qed

lemma extend_run_ascending:
  "sorted_wrt (\<lambda>a b. l_size b \<le> l_size a) (p # fst (extend_run leak_cmp False p xs))"
proof (induction xs arbitrary: p)
  case Nil
  show ?case by simp
next
  case (Cons x xs)
  show ?case
  proof (cases "l_size x < l_size p")
    case False
    then show ?thesis by (simp add: leak_cmp_def)
  next
    case True
    then have c: "\<not> leak_cmp x p < 0" by (simp add: leak_cmp_def)
    have "sorted_wrt (\<lambda>a b. l_size b \<le> l_size a)
            (x # fst (extend_run leak_cmp False x xs))"
      by (rule Cons.IH)
    then show ?thesis
      using True c by (auto simp: Let_def)
  qed
qed

lemma find_insertion_splits:
  assumes "desc_by_size s" "left \<le> right" "right \<le> length s"
    and "\<forall>i<left. l_size p < l_size (s ! i)"
    and "\<forall>i. right \<le> i \<and> i < length s \<longrightarrow> l_size (s ! i) \<le> l_size p"
  shows "(\<forall>i < find_insertion leak_cmp p s left right. l_size p < l_size (s ! i)) \<and>
         (\<forall>i. find_insertion leak_cmp p s left right \<le> i \<and> i < length s
               \<longrightarrow> l_size (s ! i) \<le> l_size p)"
  using assms
proof (induction "right - left" arbitrary: left right rule: less_induct)
  case less
  note prems = less.prems
  show ?case
  proof (cases "left < right")
    case False
    then have "find_insertion leak_cmp p s left right = left"
      by (subst find_insertion.simps) simp
    moreover have "left = right" using False prems(2) by simp
    ultimately show ?thesis using prems(4,5) by simp
  next
    case True
    let ?mid = "left + (right - left) div 2"
    have m: "left \<le> ?mid" "?mid < right" using True by auto
    have srt: "\<And>i j. i \<le> j \<Longrightarrow> j < length s \<Longrightarrow> l_size (s ! j) \<le> l_size (s ! i)"
    proof -
      fix i j assume "i \<le> j" "j < length s"
      then show "l_size (s ! j) \<le> l_size (s ! i)"
        using prems(1) unfolding desc_by_size_def
        by (cases "i = j") (auto simp: sorted_wrt_iff_nth_less)
    qed
    show ?thesis
    proof (cases "leak_cmp p (s ! ?mid) < 0")
      case c: True
      then have le: "l_size (s ! ?mid) \<le> l_size p" by (simp add: leak_cmp_def split: if_splits)
      have eq: "find_insertion leak_cmp p s left right = find_insertion leak_cmp p s left ?mid"
        using True c by (subst find_insertion.simps) (simp add: Let_def)
      have right': "\<forall>i. ?mid \<le> i \<and> i < length s \<longrightarrow> l_size (s ! i) \<le> l_size p"
        using srt le by (meson order_trans)
      show ?thesis
        unfolding eq
        using less.hyps [of ?mid left, OF _ prems(1) m(1) _ prems(4) right'] m prems(3)
        by simp
    next
      case c: False
      then have lt: "l_size p < l_size (s ! ?mid)" by (simp add: leak_cmp_def split: if_splits)
      have eq: "find_insertion leak_cmp p s left right
                  = find_insertion leak_cmp p s (?mid + 1) right"
        using True c by (subst find_insertion.simps) (simp add: Let_def)
      have left': "\<forall>i<?mid + 1. l_size p < l_size (s ! i)"
      proof (intro allI impI)
        fix i assume "i < ?mid + 1"
        then have "i \<le> ?mid" by simp
        moreover have "?mid < length s" using m prems(3) by simp
        ultimately have "l_size (s ! ?mid) \<le> l_size (s ! i)" by (rule srt)
        then show "l_size p < l_size (s ! i)" using lt by simp
      qed
      show ?thesis
        unfolding eq
        using less.hyps [of right "?mid + 1", OF _ prems(1) _ prems(3) left' prems(5)] m
        by simp
    qed
  qed
qed

lemma desc_binary_insert:
  assumes "desc_by_size s"
  shows "desc_by_size (binary_insert leak_cmp s p)"
proof -
  let ?k = "find_insertion leak_cmp p s 0 (length s)"
  have k: "?k \<le> length s" using find_insertion_bounds [of 0 "length s" leak_cmp p s] by simp
  have sp: "(\<forall>i < ?k. l_size p < l_size (s ! i)) \<and>
            (\<forall>i. ?k \<le> i \<and> i < length s \<longrightarrow> l_size (s ! i) \<le> l_size p)"
    using assms by (intro find_insertion_splits) simp_all
  have before: "\<forall>x \<in> set (take ?k s). l_size p \<le> l_size x"
  proof
    fix x assume "x \<in> set (take ?k s)"
    then obtain i where "i < ?k" "x = s ! i" using k by (auto simp: in_set_conv_nth)
    then show "l_size p \<le> l_size x" using sp by auto
  qed
  have after: "\<forall>y \<in> set (drop ?k s). l_size y \<le> l_size p"
  proof
    fix y assume "y \<in> set (drop ?k s)"
    then obtain i where "i < length s - ?k" "y = s ! (?k + i)"
      using k by (auto simp: in_set_conv_nth)
    then show "l_size y \<le> l_size p" using sp by auto
  qed
  have whole: "sorted_wrt (\<lambda>a b. l_size b \<le> l_size a) (take ?k s @ drop ?k s)"
    using assms by (simp add: desc_by_size_def)
  then have "sorted_wrt (\<lambda>a b. l_size b \<le> l_size a) (take ?k s @ p # drop ?k s)"
    using before after unfolding sorted_wrt_append by auto
  then show ?thesis by (simp add: desc_by_size_def binary_insert_def Let_def)
qed

lemma desc_foldl_binary_insert:
  "desc_by_size s \<Longrightarrow> desc_by_size (foldl (binary_insert leak_cmp) s xs)"
  by (induction xs arbitrary: s) (simp_all add: desc_binary_insert)

lemma desc_js_sort: "desc_by_size (js_sort leak_cmp xs)"
proof (cases xs)
  case Nil
  then show ?thesis by (simp add: js_sort_def desc_by_size_def)
next
  case (Cons a ys)
  show ?thesis
  proof (cases ys)
    case Nil
    then show ?thesis using Cons by (simp add: js_sort_def desc_by_size_def)
  next
    case ys: (Cons b rest)
    show ?thesis
    proof (cases "l_size b < l_size a")
      case True
      then have nd: "\<not> leak_cmp b a < 0" by (simp add: leak_cmp_def)
      have "sorted_wrt (\<lambda>x y. l_size y \<le> l_size x) (b # fst (extend_run leak_cmp False b rest))"
        by (rule extend_run_ascending)
      then have "desc_by_size (a # b # fst (extend_run leak_cmp False b rest))"
        using True by (auto simp: desc_by_size_def)
      then show ?thesis
        unfolding Cons ys js_sort_def using nd
        by (simp add: Let_def desc_foldl_binary_insert)
    next
      case False
      then have d: "leak_cmp b a < 0" by (simp add: leak_cmp_def)
      have "sorted_wrt (\<lambda>x y. l_size x \<le> l_size y) (b # fst (extend_run leak_cmp True b rest))"
        by (rule extend_run_descending)
      then have "sorted_wrt (\<lambda>x y. l_size x \<le> l_size y)
                   (a # b # fst (extend_run leak_cmp True b rest))"
        using False by auto
      then have "desc_by_size (rev (a # b # fst (extend_run leak_cmp True b rest)))"
        unfolding desc_by_size_def sorted_wrt_rev .
      then show ?thesis
        unfolding Cons ys js_sort_def using d
        by (simp add: Let_def desc_foldl_binary_insert)
    qed
  qed
qed

lemma desc_last_min:
  assumes "desc_by_size xs" "e \<in> set xs"
  shows "l_size (last xs) \<le> l_size e"
proof -
  from assms(2) have ne: "xs \<noteq> []" by auto
  then have xs: "xs = butlast xs @ [last xs]" by simp
  from assms(2) have "e \<in> set (butlast xs) \<or> e = last xs"
    by (subst (asm) xs) auto
  moreover have "sorted_wrt (\<lambda>a b. l_size b \<le> l_size a) (butlast xs @ [last xs])"
    using assms(1) xs by (simp add: desc_by_size_def)
  ultimately show ?thesis by (auto simp: sorted_wrt_append)
qed

lemma desc_butlast: "desc_by_size xs \<Longrightarrow> desc_by_size (butlast xs)"
  unfolding desc_by_size_def
  by (metis append_butlast_last_id butlast.simps(1) sorted_wrt_append)


section \<open>The ranking\<close>

subsection \<open>Length and filters\<close>


lemma leak_step_skip:
  assumes "hm (Intg index) = Some nd" "\<not> passes root D index"
  shows "leak_step root D L (hm, pre) sz index =
           Inr (hm(Intg index \<mapsto> nd\<lparr>retainedSize := Some sz, distance := js_index D index\<rparr>), pre)"
  using assms by (auto simp: leak_step_def passes_def Let_def split: option.splits)

lemma leak_step_push:
  assumes "hm (Intg index) = Some nd" "passes root D index" "acc_length pre < L"
  shows "leak_step root D L (hm, pre) sz index =
           Inr (hm(Intg index \<mapsto> nd\<lparr>retainedSize := Some sz, distance := js_index D index\<rparr>),
                pre\<lparr>leakPoint := leakPoint pre @ [new_entry hm index sz],
                    acc_length := acc_length pre + 1\<rparr>)"
  using assms by (auto simp: leak_step_def passes_def Let_def new_entry_def split: option.splits)

lemma leak_step_full:
  assumes "hm (Intg index) = Some nd" "passes root D index" "\<not> acc_length pre < L"
    "leakPoint pre \<noteq> []"
  shows "leak_step root D L (hm, pre) sz index =
           Inr (hm(Intg index \<mapsto> nd\<lparr>retainedSize := Some sz, distance := js_index D index\<rparr>),
                pre\<lparr>leakPoint :=
                  (if l_size (last (js_sort leak_cmp (leakPoint pre))) < sz
                   then butlast (js_sort leak_cmp (leakPoint pre)) @ [new_entry hm index sz]
                   else js_sort leak_cmp (leakPoint pre))\<rparr>)"
  using assms by (auto simp: leak_step_def passes_def Let_def new_entry_def js_sort_Nil_iff split: option.splits)


lemma leak_reduce_rule:
  assumes "I i st"
    and "\<And>j s. I j s \<Longrightarrow> i \<le> j \<Longrightarrow> j < i + length rs \<Longrightarrow>
           \<exists>s'. leak_step root D L s (rs ! (j - i)) j = Inr s' \<and> I (Suc j) s'"
  shows "\<exists>s'. leak_reduce root D L rs i st = Inr s' \<and> I (i + length rs) s'"
  using assms
proof (induction rs arbitrary: i st)
  case Nil
  then show ?case by simp
next
  case (Cons r rs)
  from Cons.prems(2) [OF Cons.prems(1), of ] obtain s1
    where s1: "leak_step root D L st r i = Inr s1" "I (Suc i) s1"
    by fastforce
  have "\<exists>s'. leak_reduce root D L rs (Suc i) s1 = Inr s' \<and> I (Suc i + length rs) s'"
  proof (rule Cons.IH [OF s1(2)])
    fix j s
    assume a: "I j s" "Suc i \<le> j" "j < Suc i + length rs"
    then have "\<exists>s'. leak_step root D L s ((r # rs) ! (j - i)) j = Inr s' \<and> I (Suc j) s'"
      by (intro Cons.prems(2)) auto
    moreover have "(r # rs) ! (j - i) = rs ! (j - Suc i)"
      using a(2) by (simp add: nth_Cons')
    ultimately show "\<exists>s'. leak_step root D L s (rs ! (j - Suc i)) j = Inr s' \<and> I (Suc j) s'"
      by simp
  qed
  then show ?case using s1(1) by simp
qed

lemma rank_inv_step:
  assumes inv: "rank_inv root D L n j s" and j: "j < n" and L: "0 < L"
  shows "\<exists>s'. leak_step root D L s sz j = Inr s' \<and> rank_inv root D L n (Suc j) s'"
proof -
  obtain hm pre where s: "s = (hm, pre)" by (cases s)
  from inv j s obtain nd where nd: "hm (Intg j) = Some nd"
    by (auto simp: rank_inv_def)
  let ?hm = "hm(Intg j \<mapsto> nd\<lparr>retainedSize := Some sz, distance := js_index D j\<rparr>)"
  have hm': "\<forall>k<n. ?hm (Intg k) \<noteq> None"
    using inv s by (auto simp: rank_inv_def)
  have old: "\<forall>e \<in> set (leakPoint pre). l_index e < Suc j \<and> passes root D (l_index e)"
    using inv s by (auto simp: rank_inv_def less_Suc_eq)
  have len: "acc_length pre = length (leakPoint pre)" "length (leakPoint pre) \<le> L"
    using inv s by (auto simp: rank_inv_def)
  consider (skip) "\<not> passes root D j"
    | (push) "passes root D j" "acc_length pre < L"
    | (full) "passes root D j" "\<not> acc_length pre < L"
    by blast
  then show ?thesis
  proof cases
    case skip
    have "leak_step root D L (hm, pre) sz j = Inr (?hm, pre)"
      using nd skip by (rule leak_step_skip)
    then show ?thesis
      unfolding s using hm' old len by (simp add: rank_inv_def)
  next
    case push
    have "leak_step root D L (hm, pre) sz j =
            Inr (?hm, pre\<lparr>leakPoint := leakPoint pre @ [new_entry hm j sz],
                          acc_length := acc_length pre + 1\<rparr>)"
      using nd push by (rule leak_step_push)
    then show ?thesis
      unfolding s using hm' old len push by (auto simp: rank_inv_def new_entry_def)
  next
    case full
    then have ne: "leakPoint pre \<noteq> []" using len L by auto
    let ?srt = "js_sort leak_cmp (leakPoint pre)"
    have "set (butlast ?srt) \<subseteq> set (leakPoint pre)"
      using set_js_sort [of leak_cmp "leakPoint pre"] by (metis in_set_butlastD subsetI)
    moreover have "length (butlast ?srt @ [new_entry hm j sz]) = length (leakPoint pre)"
      using ne by (simp add: length_js_sort)
    moreover have "leak_step root D L (hm, pre) sz j =
            Inr (?hm, pre\<lparr>leakPoint :=
                  (if l_size (last ?srt) < sz then butlast ?srt @ [new_entry hm j sz]
                   else ?srt)\<rparr>)"
      using nd full ne by (rule leak_step_full)
    ultimately show ?thesis
      unfolding s using hm' old len full
      by (auto simp: rank_inv_def new_entry_def set_js_sort length_js_sort)
  qed
qed

lemma js_or_default_pos: "0 < d \<Longrightarrow> 0 < js_or_default v d"
  by (auto simp: js_or_default_def split: option.splits)

lemma passes_aligned:
  "passes root D k \<Longrightarrow> k < length D \<Longrightarrow> k \<noteq> root \<and> 1 < D ! k \<and> D ! k < 100000000"
  by (auto simp: passes_def js_index_def)

text \<open>
  Claim C1, as the code has it. When the distances and the retained sizes have one entry
  per node of the heap map, \<open>peakLeakPoint\<close> returns, and its list holds at most
  \<open>limit || 5\<close> entries: at most \<open>limit\<close> for a positive \<open>limit\<close>, at most 5 for
  a \<open>limit\<close> that is 0 or omitted. No entry has the index of the root, and the distance of
  every entry lies strictly between 1 and \<open>10^8\<close>.
\<close>

theorem peakLeakPoint_bounded_filtered:
  fixes eng :: "('s, 'a) js_heap_snapshot"
  assumes "length (snap_nodeDistances eng) = length (snap_retainedSizes eng)"
    and "Intg ` {..<length (snap_retainedSizes eng)} \<subseteq> dom hm"
  shows "\<exists>hm' res. peakLeakPoint root eng hm limit = Inr (hm', res) \<and>
           length (leakPoint res) \<le> js_or_default limit 5 \<and>
           (\<forall>e \<in> set (leakPoint res).
              l_index e \<noteq> root \<and> l_index e < length (snap_nodeDistances eng) \<and>
              1 < snap_nodeDistances eng ! l_index e \<and>
              snap_nodeDistances eng ! l_index e < 100000000)"
proof -
  let ?D = "snap_nodeDistances eng" and ?R = "snap_retainedSizes eng"
  let ?L = "js_or_default limit 5"
  let ?st = "(hm, \<lparr>leakPoint = [], acc_length = 0, statistics = snap_statistics eng,
                    aggregates = snap_aggregates eng\<rparr>)"
  have L: "0 < ?L" by (simp add: js_or_default_pos)
  have init: "rank_inv root ?D ?L (length ?R) 0 ?st"
    using assms(2) by (auto simp: rank_inv_def)
  have "\<exists>s'. leak_reduce root ?D ?L ?R 0 ?st = Inr s' \<and>
          rank_inv root ?D ?L (length ?R) (0 + length ?R) s'"
  proof (rule leak_reduce_rule [where I = "rank_inv root ?D ?L (length ?R)", OF init])
    fix j and s :: "heap_map \<times> ('s, 'a) leak_acc"
    assume "rank_inv root ?D ?L (length ?R) j s" "j < 0 + length ?R"
    then show "\<exists>s'. leak_step root ?D ?L s (?R ! (j - 0)) j = Inr s' \<and>
                 rank_inv root ?D ?L (length ?R) (Suc j) s'"
      using rank_inv_step [of root ?D ?L "length ?R" j s] L by simp
  qed
  then obtain hm' res where r: "peakLeakPoint root eng hm limit = Inr (hm', res)"
    and inv: "rank_inv root ?D ?L (length ?R) (length ?R) (hm', res)"
    by (auto simp: peakLeakPoint_def)
  have "\<forall>e \<in> set (leakPoint res).
          l_index e \<noteq> root \<and> l_index e < length ?D \<and> 1 < ?D ! l_index e \<and> ?D ! l_index e < 100000000"
  proof
    fix e
    assume "e \<in> set (leakPoint res)"
    with inv have "l_index e < length ?R" "passes root ?D (l_index e)"
      by (auto simp: rank_inv_def)
    then show "l_index e \<noteq> root \<and> l_index e < length ?D \<and> 1 < ?D ! l_index e \<and>
                 ?D ! l_index e < 100000000"
      using passes_aligned [of root ?D "l_index e"] assms(1) by simp
  qed
  then show ?thesis using r inv by (auto simp: rank_inv_def)
qed



theorem peakLeakPoint_bounded_filtered_witness:
  "length (snap_nodeDistances ex_engine) = length (snap_retainedSizes ex_engine) \<and>
   Intg ` {..<length (snap_retainedSizes ex_engine)} \<subseteq> dom (ex_heapMap 5) \<and>
   (\<exists>hm' res. peakLeakPoint 0 ex_engine (ex_heapMap 5) (Some 1) = Inr (hm', res) \<and>
      leakPoint res = [\<lparr>l_index = 2, l_id = ''@5'', l_size = 300\<rparr>] \<and>
      length (leakPoint res) \<le> js_or_default (Some 1) 5 \<and>
      (\<forall>e \<in> set (leakPoint res).
         l_index e \<noteq> 0 \<and> l_index e < length (snap_nodeDistances ex_engine) \<and>
         1 < snap_nodeDistances ex_engine ! l_index e \<and>
         snap_nodeDistances ex_engine ! l_index e < 100000000))"
proof -
  have h1: "length (snap_nodeDistances ex_engine) = length (snap_retainedSizes ex_engine)"
    by (simp add: ex_engine_def)
  have h2: "Intg ` {..<length (snap_retainedSizes ex_engine)} \<subseteq> dom (ex_heapMap 5)"
    by (auto simp: ex_engine_def ex_heapMap_def)
  have run: "leakPoint (snd (projr (peakLeakPoint 0 ex_engine (ex_heapMap 5) (Some 1)))) =
      [\<lparr>l_index = 2, l_id = ''@5'', l_size = 300\<rparr>]"
    by code_simp
  from peakLeakPoint_bounded_filtered [OF h1 h2, of 0 "Some 1"] run h1 h2
  show ?thesis by auto
qed

text \<open>
  C1 as it is written fails for \<open>limit = 0\<close>: on the five example nodes the call
  returns two entries.
\<close>

theorem peakLeakPoint_limit_zero_counterexample:
  "length (snap_nodeDistances ex_engine) = length (snap_retainedSizes ex_engine) \<and>
   \<not> isl (peakLeakPoint 0 ex_engine (ex_heapMap 5) (Some 0)) \<and>
   \<not> length (leakPoint (snd (projr (peakLeakPoint 0 ex_engine (ex_heapMap 5) (Some 0))))) \<le> 0"
  by code_simp

subsection \<open>Ties\<close>

lemma last_js_sort_min:
  assumes "xs \<noteq> []"
  shows "l_size (last (js_sort leak_cmp xs)) = min_size xs"
proof -
  let ?s = "js_sort leak_cmp xs"
  have ne: "?s \<noteq> []" using assms by (simp add: js_sort_Nil_iff)
  then have "last ?s \<in> set xs" using set_js_sort [of leak_cmp xs] last_in_set by blast
  moreover have "\<forall>e \<in> set xs. l_size (last ?s) \<le> l_size e"
    using desc_last_min [OF desc_js_sort, of _ xs] by (simp add: set_js_sort)
  ultimately show ?thesis
    unfolding min_size_def by (intro Min_eqI [symmetric]) auto
qed


lemma leak_step_full_keep:
  assumes nd: "hm (Intg index) = Some nd" and p: "passes root D index"
    and full: "\<not> acc_length pre < L" and ne: "leakPoint pre \<noteq> []"
    and le: "sz \<le> min_size (leakPoint pre)"
  shows "\<exists>hm1 pre1. leak_step root D L (hm, pre) sz index = Inr (hm1, pre1) \<and>
           leakPoint pre1 = js_sort leak_cmp (leakPoint pre)"
  using leak_step_full [where hm = hm and index = index and nd = nd and root = root and D = D and pre = pre and L = L and sz = sz] nd p full ne le
    last_js_sort_min [OF ne]
  by simp

lemma leak_step_full_evict:
  assumes nd: "hm (Intg index) = Some nd" and p: "passes root D index"
    and full: "\<not> acc_length pre < L" and ne: "leakPoint pre \<noteq> []"
    and gt: "min_size (leakPoint pre) < sz"
  shows "\<exists>hm1 pre1. leak_step root D L (hm, pre) sz index = Inr (hm1, pre1) \<and>
           leakPoint pre1 = butlast (js_sort leak_cmp (leakPoint pre)) @ [new_entry hm index sz]"
  using leak_step_full [where hm = hm and index = index and nd = nd and root = root and D = D and pre = pre and L = L and sz = sz] nd p full ne gt
    last_js_sort_min [OF ne]
  by simp















subsection \<open>The order of the list\<close>

lemma candidates_Suc:
  "candidates root D (Suc j) = (if passes root D j then candidates root D j @ [j] else candidates root D j)"
  by (simp add: candidates_def)

lemma order_inv_step:
  fixes s :: "heap_map \<times> ('s, 'a) leak_acc"
  assumes inv: "order_inv root D R L hm0 j s" and L: "0 < L" and dom: "hm0 (Intg j) \<noteq> None"
  shows "\<exists>s'. leak_step root D L s (R ! j) j = Inr s' \<and> order_inv root D R L hm0 (Suc j) s'"
proof -
  obtain hm pre where s: "s = (hm, pre)" by (cases s)
  have ids: "\<forall>k. map_option d_id (hm (Intg k)) = map_option d_id (hm0 (Intg k))"
    using inv s by (simp add: order_inv_def)
  from dom ids obtain nd where nd: "hm (Intg j) = Some nd"
    by (metis not_None_eq option.map_disc_iff)
  have idj: "d_id nd = d_id (the (hm0 (Intg j)))"
    using ids nd dom by (metis option.map_sel option.sel option.simps(9))
  then have ne_eq: "new_entry hm j (R ! j) = new_entry hm0 j (R ! j)"
    using nd by (simp add: new_entry_def)
  let ?hm = "hm(Intg j \<mapsto> nd\<lparr>retainedSize := Some (R ! j), distance := js_index D j\<rparr>)"
  have ids': "\<forall>k. map_option d_id (?hm (Intg k)) = map_option d_id (hm0 (Intg k))"
    using ids nd by (metis (no_types, lifting) desc_node.select_convs(4) desc_node.surjective
        desc_node.update_convs(10,11) fun_upd_apply option.simps(9)) 
  have len: "acc_length pre = length (leakPoint pre)"
    using inv s by (simp add: order_inv_def)
  let ?c = "candidates root D j"
  have small: "length ?c \<le> L \<Longrightarrow> leakPoint pre = map (\<lambda>k. new_entry hm0 k (R ! k)) ?c"
    and big: "L < length ?c \<Longrightarrow> length (leakPoint pre) = L \<and> desc_by_size (butlast (leakPoint pre))"
    using inv s by (simp_all add: order_inv_def)
  consider (skip) "\<not> passes root D j"
    | (push) "passes root D j" "acc_length pre < L"
    | (full) "passes root D j" "\<not> acc_length pre < L"
    by blast
  then show ?thesis
  proof cases
    case skip
    have "leak_step root D L (hm, pre) (R ! j) j = Inr (?hm, pre)"
      using nd skip by (rule leak_step_skip)
    moreover have "candidates root D (Suc j) = ?c" using skip by (simp add: candidates_Suc)
    ultimately show ?thesis
      unfolding s using ids' len small big by (simp add: order_inv_def)
  next
    case push
    have step: "leak_step root D L (hm, pre) (R ! j) j =
            Inr (?hm, pre\<lparr>leakPoint := leakPoint pre @ [new_entry hm j (R ! j)],
                          acc_length := acc_length pre + 1\<rparr>)"
      using nd push by (rule leak_step_push)
    have c': "candidates root D (Suc j) = ?c @ [j]" using push by (simp add: candidates_Suc)
    have "\<not> L < length ?c" using big push(2) len by auto
    then have lt: "length ?c < L" and lp: "leakPoint pre = map (\<lambda>k. new_entry hm0 k (R ! k)) ?c"
      using small push(2) len by auto
    show ?thesis
      unfolding s step using ids' len lt lp c' ne_eq by (simp add: order_inv_def)
  next
    case full
    have lenL: "length (leakPoint pre) = L"
    proof (cases "L < length ?c")
      case True then show ?thesis using big by simp
    next
      case False
      then have "length (leakPoint pre) = length ?c" using small by simp
      then show ?thesis using False full(2) len by simp
    qed
    then have ne: "leakPoint pre \<noteq> []" using L by auto
    have geL: "L \<le> length ?c"
      using small lenL by (cases "L < length ?c") auto
    let ?srt = "js_sort leak_cmp (leakPoint pre)"
    have step: "leak_step root D L (hm, pre) (R ! j) j =
            Inr (?hm, pre\<lparr>leakPoint :=
                  (if l_size (last ?srt) < R ! j then butlast ?srt @ [new_entry hm j (R ! j)]
                   else ?srt)\<rparr>)"
      using nd full ne by (rule leak_step_full)
    have c': "candidates root D (Suc j) = ?c @ [j]" using full by (simp add: candidates_Suc)
    have d: "desc_by_size (butlast ?srt)" by (intro desc_butlast desc_js_sort)
    have sne: "?srt \<noteq> []" using ne by (simp add: js_sort_Nil_iff)
    have l1: "length (butlast ?srt @ [new_entry hm j (R ! j)]) = L"
      using sne lenL L by (simp add: length_js_sort)
    show ?thesis
      unfolding s step using ids' len geL c' d l1 lenL
      by (simp add: order_inv_def length_js_sort)
  qed
qed

text \<open>
  Claim C2, as the code has it. The list is not sorted when it is returned. While at
  most \<open>limit || 5\<close> nodes are candidates, it holds the candidates in the order in
  which they were met, whatever their sizes. When there are more, it holds
  \<open>limit || 5\<close> entries, and all of them but the last are in descending order of size.
\<close>

theorem peakLeakPoint_order:
  fixes eng :: "('s, 'a) js_heap_snapshot"
  assumes "Intg ` {..<length (snap_retainedSizes eng)} \<subseteq> dom hm"
  shows "\<exists>hm' res. peakLeakPoint root eng hm limit = Inr (hm', res) \<and>
     (length (candidates root (snap_nodeDistances eng) (length (snap_retainedSizes eng)))
        \<le> js_or_default limit 5 \<longrightarrow>
      leakPoint res =
        map (\<lambda>k. new_entry hm k (snap_retainedSizes eng ! k))
          (candidates root (snap_nodeDistances eng) (length (snap_retainedSizes eng)))) \<and>
     (js_or_default limit 5
        < length (candidates root (snap_nodeDistances eng) (length (snap_retainedSizes eng))) \<longrightarrow>
      length (leakPoint res) = js_or_default limit 5 \<and> desc_by_size (butlast (leakPoint res)))"
proof -
  let ?D = "snap_nodeDistances eng" and ?R = "snap_retainedSizes eng"
  let ?L = "js_or_default limit 5"
  let ?st = "(hm, \<lparr>leakPoint = [], acc_length = 0, statistics = snap_statistics eng,
                    aggregates = snap_aggregates eng\<rparr>)"
  let ?I = "\<lambda>j s. order_inv root ?D ?R ?L hm j s"
  have L: "0 < ?L" by (simp add: js_or_default_pos)
  have init: "?I 0 ?st"
    by (simp add: order_inv_def candidates_def)
  have "\<exists>s'. leak_reduce root ?D ?L ?R 0 ?st = Inr s' \<and> ?I (0 + length ?R) s'"
  proof (rule leak_reduce_rule [where I = ?I, OF init])
    fix j and s :: "heap_map \<times> ('s, 'a) leak_acc"
    assume a: "order_inv root ?D ?R ?L hm j s" "j < 0 + length ?R"
    then have "hm (Intg j) \<noteq> None" using assms by auto
    then show "\<exists>s'. leak_step root ?D ?L s (?R ! (j - 0)) j = Inr s' \<and>
                 order_inv root ?D ?R ?L hm (Suc j) s'"
      using order_inv_step [OF a(1) L] by simp
  qed
  then obtain hm' res where r: "peakLeakPoint root eng hm limit = Inr (hm', res)"
    and inv: "order_inv root ?D ?R ?L hm (length ?R) (hm', res)"
    by (auto simp: peakLeakPoint_def)
  show ?thesis
    using r inv by (simp add: order_inv_def)
qed

text \<open>Four candidates and the default limit: the list keeps the order of the nodes,
  sizes 300, 200, 200, 900.\<close>

theorem peakLeakPoint_order_witness:
  "Intg ` {..<length (snap_retainedSizes ex_ties)} \<subseteq> dom (ex_heapMap 5) \<and>
   length (candidates 0 (snap_nodeDistances ex_ties) (length (snap_retainedSizes ex_ties)))
     \<le> js_or_default None 5 \<and>
   (\<exists>hm' res. peakLeakPoint 0 ex_ties (ex_heapMap 5) None = Inr (hm', res) \<and>
      map l_size (leakPoint res) = [300, 200, 200, 900]) \<and>
   js_or_default (Some 2) 5
     < length (candidates 0 (snap_nodeDistances ex_ties) (length (snap_retainedSizes ex_ties))) \<and>
   (\<exists>hm' res. peakLeakPoint 0 ex_ties (ex_heapMap 5) (Some 2) = Inr (hm', res) \<and>
      length (leakPoint res) = 2 \<and> desc_by_size (butlast (leakPoint res)))"
proof -
  have h1: "Intg ` {..<length (snap_retainedSizes ex_ties)} \<subseteq> dom (ex_heapMap 5)"
    by (auto simp: ex_ties_def ex_heapMap_def)
  have c: "candidates 0 (snap_nodeDistances ex_ties) (length (snap_retainedSizes ex_ties))
             = [1, 2, 3, 4]"
    by code_simp
  have h2: "length (candidates 0 (snap_nodeDistances ex_ties) (length (snap_retainedSizes ex_ties)))
     \<le> js_or_default None 5"
    unfolding c by (simp add: js_or_default_def)
  have m: "map l_size (map (\<lambda>k. new_entry (ex_heapMap 5) k (snap_retainedSizes ex_ties ! k))
             [1, 2, 3, 4]) = [300, 200, 200, 900]"
    by (simp add: new_entry_def ex_ties_def)
  have h3: "js_or_default (Some 2) 5
     < length (candidates 0 (snap_nodeDistances ex_ties) (length (snap_retainedSizes ex_ties)))"
    unfolding c by (simp add: js_or_default_def)
  from peakLeakPoint_order [OF h1, of 0 None] h2 c m
  have first: "\<exists>hm' res. peakLeakPoint 0 ex_ties (ex_heapMap 5) None = Inr (hm', res) \<and>
      map l_size (leakPoint res) = [300, 200, 200, 900]"
    by auto
  from peakLeakPoint_order [OF h1, of 0 "Some 2"] h3
  have second: "\<exists>hm' res. peakLeakPoint 0 ex_ties (ex_heapMap 5) (Some 2) = Inr (hm', res) \<and>
      length (leakPoint res) = 2 \<and> desc_by_size (butlast (leakPoint res))"
    by (auto simp: js_or_default_def)
  show ?thesis using h1 h2 h3 first second by blast
qed

text \<open>C2 as it is written fails on the same input: the list that is returned is not
  in descending order of size. It fails as well after an eviction, with limit 2.\<close>

theorem peakLeakPoint_unsorted_counterexample:
  "\<not> isl (peakLeakPoint 0 ex_ties (ex_heapMap 5) None) \<and>
   map l_size (leakPoint (snd (projr (peakLeakPoint 0 ex_ties (ex_heapMap 5) None))))
     = [300, 200, 200, 900] \<and>
   \<not> desc_by_size (leakPoint (snd (projr (peakLeakPoint 0 ex_ties (ex_heapMap 5) None)))) \<and>
   map l_size (leakPoint (snd (projr (peakLeakPoint 0 ex_ties (ex_heapMap 5) (Some 2)))))
     = [300, 900] \<and>
   \<not> desc_by_size (leakPoint (snd (projr (peakLeakPoint 0 ex_ties (ex_heapMap 5) (Some 2)))))"
  by code_simp

subsection \<open>The default limit\<close>

lemma js_or_default_zero: "js_or_default (Some 0) d = d" "js_or_default None d = d"
  by (simp_all add: js_or_default_def)

text \<open>
  Claim C10. A \<open>limit\<close> of 0 and an omitted \<open>limit\<close> both rank as the limit 5
  does, in \<open>peakLeakPoint\<close> and so in \<open>fetchHeapUsage\<close>. On the chain of eight
  nodes, which has six candidates, the call with \<open>limit = 0\<close> returns five of them.
\<close>

theorem falsy_limit_defaults_to_five:
  "peakLeakPoint root eng hm (Some 0) = peakLeakPoint root eng hm (Some 5) \<and>
   peakLeakPoint root eng hm None = peakLeakPoint root eng hm (Some 5) \<and>
   fetchHeapUsage eng heapData (Some 0) = fetchHeapUsage eng heapData (Some 5) \<and>
   fetchHeapUsage eng heapData None = fetchHeapUsage eng heapData (Some 5) \<and>
   map_option (map_sum id r_leakPoint) (fetchHeapUsage ex_chain_engine ex_chain (Some 0)) =
     Some (Inr [\<lparr>l_index = 2, l_id = ''@5'', l_size = 270\<rparr>,
                \<lparr>l_index = 3, l_id = ''@7'', l_size = 250\<rparr>,
                \<lparr>l_index = 4, l_id = ''@9'', l_size = 220\<rparr>,
                \<lparr>l_index = 5, l_id = ''@11'', l_size = 180\<rparr>,
                \<lparr>l_index = 6, l_id = ''@13'', l_size = 130\<rparr>])"
proof -
  have p: "peakLeakPoint root eng hm (Some 0) = peakLeakPoint root eng hm (Some 5)"
    "peakLeakPoint root eng hm None = peakLeakPoint root eng hm (Some 5)" for root hm
    by (simp_all add: peakLeakPoint_def js_or_default_def)
  have f: "fetchHeapUsage eng heapData (Some 0) = fetchHeapUsage eng heapData (Some 5)"
    "fetchHeapUsage eng heapData None = fetchHeapUsage eng heapData (Some 5)"
    unfolding fetchHeapUsage_def p by (rule refl)+
  have run: "map_option (map_sum id r_leakPoint) (fetchHeapUsage ex_chain_engine ex_chain (Some 0)) =
     Some (Inr [\<lparr>l_index = 2, l_id = ''@5'', l_size = 270\<rparr>,
                \<lparr>l_index = 3, l_id = ''@7'', l_size = 250\<rparr>,
                \<lparr>l_index = 4, l_id = ''@9'', l_size = 220\<rparr>,
                \<lparr>l_index = 5, l_id = ''@11'', l_size = 180\<rparr>,
                \<lparr>l_index = 6, l_id = ''@13'', l_size = 130\<rparr>])"
    by code_simp
  show ?thesis using p f run by simp
qed

section \<open>The decoder\<close>

subsection \<open>The loops as functions of the snapshot\<close>

lemma chunks_Nil [simp]: "chunks n [] = []"
  by (simp add: chunks.simps)

lemma chunks_zero [simp]: "chunks 0 xs = []"
  by (simp add: chunks.simps)

lemma chunks_step: "0 < n \<Longrightarrow> xs \<noteq> [] \<Longrightarrow> chunks n xs = take n xs # chunks n (drop n xs)"
  by (subst chunks.simps) simp

lemma edge_loop_result:
  assumes efl: "0 < length (edge_fields (meta (snapshot heapData))) \<or> length ne \<le> i"
    and tbl: "js_index (edge_types (meta (snapshot heapData))) 0 = Some etbl"
  shows "edge_loop heapData nid ne i (ch, em) =
           Some (Inr (ch @ map (make_edge heapData etbl)
                            (chunks (length (edge_fields (meta (snapshot heapData)))) (drop i ne)),
                      foldl (record_edge nid) em
                        (map (make_edge heapData etbl)
                           (chunks (length (edge_fields (meta (snapshot heapData)))) (drop i ne)))))"
  using efl
proof (induction "length ne - i" arbitrary: i ch em rule: less_induct)
  case less
  let ?efl = "length (edge_fields (meta (snapshot heapData)))"
  show ?case
  proof (cases "i < length ne")
    case False
    then show ?thesis by (subst edge_loop.simps) simp
  next
    case True
    then have pos: "0 < ?efl" using less.prems by simp
    let ?e = "make_edge heapData etbl (js_slice ne i (i + ?efl))"
    have step: "edge_step heapData nid ne i (ch, em) = Inr (ch @ [?e], record_edge nid em ?e)"
      using tbl by (simp add: edge_step_def Let_def)
    have "length ne - (i + ?efl) < length ne - i" using True pos by linarith
    from less.hyps [OF this, of "ch @ [?e]" "record_edge nid em ?e"] pos
    have rec: "edge_loop heapData nid ne (i + ?efl) (ch @ [?e], record_edge nid em ?e) =
           Some (Inr ((ch @ [?e]) @ map (make_edge heapData etbl) (chunks ?efl (drop (i + ?efl) ne)),
                      foldl (record_edge nid) (record_edge nid em ?e)
                        (map (make_edge heapData etbl) (chunks ?efl (drop (i + ?efl) ne)))))"
      by simp
    have "drop i ne \<noteq> []" using True by simp
    then have ch: "chunks ?efl (drop i ne) = js_slice ne i (i + ?efl) # chunks ?efl (drop (i + ?efl) ne)"
      using pos by (simp add: chunks_step js_slice_def add.commute)
    show ?thesis
      by (subst edge_loop.simps) (simp add: True step rec ch)
  qed
qed

lemma slice_nan_empty:
  "js_slice_nan xs off (js_add off (js_mul c 0)) = []"
  by (simp add: js_slice_nan_def js_slice_def js_add_def js_mul_def split: option.splits)

lemma node_step_result:
  assumes tbl: "js_index (node_types (meta (snapshot heapData))) 0 = Some tbl"
    and etbl: "js_index (edge_types (meta (snapshot heapData))) 0 = Some etbl"
  shows "node_step heapData i st =
           Some (Inr \<lparr>offset = js_add (offset st) (node_span heapData i),
                      s_heapMap = put_node (s_heapMap st) (decoded_node heapData tbl etbl i (offset st)),
                      s_heapArray = s_heapArray st @ [decoded_node heapData tbl etbl i (offset st)],
                      s_edgesMap = record_node (s_edgesMap st) (decoded_node heapData tbl etbl i (offset st))\<rparr>)"
proof -
  let ?efl = "length (edge_fields (meta (snapshot heapData)))"
  let ?desc = "make_node heapData tbl i"
  have span: "js_mul (edge_count ?desc) ?efl = node_span heapData i"
    by (simp add: make_node_def node_span_def Let_def)
  let ?ne = "js_slice_nan (edges heapData) (offset st) (js_add (offset st) (node_span heapData i))"
  have "0 < ?efl \<or> length ?ne \<le> 0"
    using slice_nan_empty [of "edges heapData" "offset st" "edge_count ?desc"] span
    by (cases "?efl = 0") auto
  from edge_loop_result [OF this etbl, of "d_id ?desc" "[]" "s_edgesMap st"]
  have loop: "edge_loop heapData (d_id ?desc) ?ne 0 ([], s_edgesMap st) =
      Some (Inr (map (make_edge heapData etbl) (chunks ?efl ?ne),
                 foldl (record_edge (d_id ?desc)) (s_edgesMap st)
                   (map (make_edge heapData etbl) (chunks ?efl ?ne))))"
    by simp
  have id: "d_id (decoded_node heapData tbl etbl i (offset st)) = d_id ?desc"
    by (simp add: decoded_node_def)
  show ?thesis
    unfolding node_step_def
    by (simp add: tbl Let_def span loop decoded_node_def put_node_def record_node_def)
qed

lemma stride_lt:
  assumes "0 < (w::nat)"
  shows "(k * w < n) = (k < (n + w - 1) div w)"
proof -
  have "(k < (n + w - 1) div w) = (Suc k \<le> (n + w - 1) div w)" by auto
  also have "\<dots> = (Suc k * w \<le> n + w - 1)"
    using assms by (simp add: less_eq_div_iff_mult_less_eq)
  also have "\<dots> = (k * w < n)" using assms by (cases w) auto
  finally show ?thesis by simp
qed

lemma decoded_nodes_step:
  "k < stride_count heapData \<Longrightarrow>
   decoded_nodes heapData tbl etbl k =
     decoded_node heapData tbl etbl (k * length (node_fields (meta (snapshot heapData))))
       (offset_at heapData k) # decoded_nodes heapData tbl etbl (Suc k)"
  by (simp add: decoded_nodes_def upt_conv_Cons)

lemma decoded_nodes_done:
  "\<not> k < stride_count heapData \<Longrightarrow> decoded_nodes heapData tbl etbl k = []"
  by (simp add: decoded_nodes_def)

lemma node_loop_result:
  assumes nfl: "0 < length (node_fields (meta (snapshot heapData)))"
    and tbl: "js_index (node_types (meta (snapshot heapData))) 0 = Some tbl"
    and etbl: "js_index (edge_types (meta (snapshot heapData))) 0 = Some etbl"
  shows "\<exists>off. node_loop heapData (k * length (node_fields (meta (snapshot heapData))))
           \<lparr>offset = offset_at heapData k, s_heapMap = hm, s_heapArray = ha, s_edgesMap = em\<rparr> =
         Some (Inr \<lparr>offset = off,
                    s_heapMap = foldl put_node hm (decoded_nodes heapData tbl etbl k),
                    s_heapArray = ha @ decoded_nodes heapData tbl etbl k,
                    s_edgesMap = foldl record_node em (decoded_nodes heapData tbl etbl k)\<rparr>)"
proof (induction "stride_count heapData - k" arbitrary: k hm ha em rule: less_induct)
  case less
  let ?nfl = "length (node_fields (meta (snapshot heapData)))"
  have lt: "(k * ?nfl < length (nodes heapData)) = (k < stride_count heapData)"
    unfolding stride_count_def using nfl by (rule stride_lt)
  show ?case
  proof (cases "k < stride_count heapData")
    case False
    then show ?thesis
      using lt by (subst node_loop.simps) (simp add: decoded_nodes_done)
  next
    case True
    let ?st = "\<lparr>offset = offset_at heapData k, s_heapMap = hm, s_heapArray = ha, s_edgesMap = em\<rparr>"
    let ?nd = "decoded_node heapData tbl etbl (k * ?nfl) (offset_at heapData k)"
    have step: "node_step heapData (k * ?nfl) ?st =
        Some (Inr \<lparr>offset = offset_at heapData (Suc k), s_heapMap = put_node hm ?nd,
                   s_heapArray = ha @ [?nd], s_edgesMap = record_node em ?nd\<rparr>)"
      using node_step_result [OF tbl etbl, of "k * ?nfl" ?st] by simp
    have "stride_count heapData - Suc k < stride_count heapData - k" using True by simp
    from less.hyps [OF this, of "put_node hm ?nd" "ha @ [?nd]" "record_node em ?nd"]
    obtain off where rec: "node_loop heapData (Suc k * ?nfl)
           \<lparr>offset = offset_at heapData (Suc k), s_heapMap = put_node hm ?nd,
            s_heapArray = ha @ [?nd], s_edgesMap = record_node em ?nd\<rparr> =
         Some (Inr \<lparr>offset = off,
                    s_heapMap = foldl put_node (put_node hm ?nd) (decoded_nodes heapData tbl etbl (Suc k)),
                    s_heapArray = (ha @ [?nd]) @ decoded_nodes heapData tbl etbl (Suc k),
                    s_edgesMap = foldl record_node (record_node em ?nd) (decoded_nodes heapData tbl etbl (Suc k))\<rparr>)"
      by blast
    have idx: "k * ?nfl + ?nfl = Suc k * ?nfl" by simp
    show ?thesis
      apply (subst node_loop.simps)
      apply (simp only: lt True if_True step option.case sum.case idx rec)
      apply (simp add: decoded_nodes_step [OF True])
      done
  qed
qed

lemma handleHeapData_result:
  assumes nfl: "0 < length (node_fields (meta (snapshot heapData)))"
    and tbl: "js_index (node_types (meta (snapshot heapData))) 0 = Some tbl"
    and etbl: "js_index (edge_types (meta (snapshot heapData))) 0 = Some etbl"
  shows "handleHeapData heapData = Some (Inr (decoded_graph heapData tbl etbl))"
proof -
  from node_loop_result [OF nfl tbl etbl, of 0 Map.empty "[]" Map.empty]
  show ?thesis
    by (auto simp: handleHeapData_def decoded_graph_def Let_def)
qed

subsection \<open>One node per stride\<close>

lemma ceil_div_dvd:
  assumes "0 < (w::nat)" "w dvd n"
  shows "(n + w - 1) div w = n div w"
proof -
  from assms(2) obtain q where q: "n = w * q" by (rule dvdE)
  have "w * q \<le> n + w - 1" "n + w - 1 < w * Suc q"
    using assms(1) by (simp_all add: q)
  then have "(n + w - 1) div w = q" by (rule div_nat_eqI)
  moreover have "n div w = q" using assms(1) by (simp add: q)
  ultimately show ?thesis by simp
qed

lemma stride_count_dvd:
  assumes "0 < length (node_fields (meta (snapshot heapData)))"
    and "length (node_fields (meta (snapshot heapData))) dvd length (nodes heapData)"
  shows "stride_count heapData
           = length (nodes heapData) div length (node_fields (meta (snapshot heapData)))"
  unfolding stride_count_def using assms by (rule ceil_div_dvd)

lemma length_decoded_nodes [simp]:
  "length (decoded_nodes heapData tbl etbl 0) = stride_count heapData"
  by (simp add: decoded_nodes_def)

lemma nth_decoded_nodes:
  "k < stride_count heapData \<Longrightarrow>
   decoded_nodes heapData tbl etbl 0 ! k =
     decoded_node heapData tbl etbl (k * length (node_fields (meta (snapshot heapData))))
       (offset_at heapData k)"
  by (simp add: decoded_nodes_def)

lemma decoded_node_fields:
  "\<exists>ch. decoded_node heapData tbl etbl i off = (make_node heapData tbl i)\<lparr>children := ch\<rparr>"
  by (auto simp: decoded_node_def)

lemma decoded_node_index:
  "0 < length (node_fields (meta (snapshot heapData))) \<Longrightarrow>
   d_index (decoded_node heapData tbl etbl
              (k * length (node_fields (meta (snapshot heapData)))) off) = Intg k"
  by (simp add: decoded_node_def make_node_def js_div_def Let_def)

lemma table_present: "xs \<noteq> [] \<Longrightarrow> js_index xs 0 = Some (xs ! 0)"
  by (simp add: js_index_def)

text \<open>With an empty \<open>node_fields\<close>, a non-empty \<open>nodes\<close> and both type tables, the
  outer loop stays at \<open>i = 0\<close>: \<open>handleHeapData\<close> does not return.\<close>

lemma node_loop_never_returns:
  assumes nfl: "length (node_fields (meta (snapshot heapData))) = 0"
    and tbl: "js_index (node_types (meta (snapshot heapData))) 0 = Some tbl"
    and etbl: "js_index (edge_types (meta (snapshot heapData))) 0 = Some etbl"
    and i: "i < length (nodes heapData)"
  shows "node_loop heapData i st = None"
proof (rule ccontr)
  let ?C = "\<lambda>(h :: heap_data) (j :: nat).
        length (node_fields (meta (snapshot h))) = 0 \<and>
        js_index (node_types (meta (snapshot h))) 0 = Some tbl \<and>
        js_index (edge_types (meta (snapshot h))) 0 = Some etbl \<and>
        j < length (nodes h)"
  assume "node_loop heapData i st \<noteq> None"
  then obtain y where y: "node_loop heapData i st = Some y" by auto
  have "\<not> ?C heapData i"
  proof (rule node_loop.raw_induct [where P = "\<lambda>h j s r. \<not> ?C h j", OF _ y])
    fix loop :: "heap_data \<Rightarrow> nat \<Rightarrow> decode_state \<Rightarrow> (error + decode_state) option"
    fix h j s r
    assume IH: "\<And>h j s r. loop h j s = Some r \<Longrightarrow> \<not> ?C h j"
      and body: "(if j < length (nodes h)
                  then case node_step h j s of None \<Rightarrow> None
                       | Some (Inl e) \<Rightarrow> Some (Inl e)
                       | Some (Inr s') \<Rightarrow>
                           loop h (j + length (node_fields (meta (snapshot h)))) s'
                  else Some (Inr s)) = Some r"
    show "\<not> ?C h j"
    proof
      assume c: "?C h j"
      then obtain s' where "node_step h j s = Some (Inr s')"
        using node_step_result [of h tbl etbl j s] by blast
      with c body have "loop h j s' = Some r" by simp
      from IH [OF this] c show False by blast
    qed
  qed
  with assms show False by simp
qed

lemma handleHeapData_never_returns:
  assumes "node_fields (meta (snapshot heapData)) = []"
    and "node_types (meta (snapshot heapData)) \<noteq> []"
    and "edge_types (meta (snapshot heapData)) \<noteq> []"
    and "nodes heapData \<noteq> []"
  shows "handleHeapData heapData = None"
proof -
  have "node_loop heapData 0
          \<lparr>offset = Some 0, s_heapMap = Map.empty, s_heapArray = [], s_edgesMap = Map.empty\<rparr>
        = None"
    using assms(1,4) table_present [OF assms(2)] table_present [OF assms(3)]
    by (intro node_loop_never_returns) auto
  then show ?thesis by (simp add: handleHeapData_def)
qed

text \<open>
  Claim C9. A capture is valid here when \<open>node_fields\<close> is not empty, its length
  divides the length of \<open>nodes\<close>, and both type tables have their element 0. Then
  \<open>handleHeapData\<close> returns a graph whose \<open>heapArray\<close> has
  \<open>nodes.length / node_fields.length\<close> elements; the element at position \<open>k\<close> has
  \<open>index\<close> \<open>k\<close> and is the node record built from the stride that starts at
  \<open>k * node_fields.length\<close>.
\<close>

theorem heapArray_one_node_per_stride:
  assumes "0 < length (node_fields (meta (snapshot heapData)))"
    and "length (node_fields (meta (snapshot heapData))) dvd length (nodes heapData)"
    and "node_types (meta (snapshot heapData)) \<noteq> []"
    and "edge_types (meta (snapshot heapData)) \<noteq> []"
  shows "\<exists>g. handleHeapData heapData = Some (Inr g) \<and>
     length (heapArray g)
       = length (nodes heapData) div length (node_fields (meta (snapshot heapData))) \<and>
     (\<forall>k < length (heapArray g).
        d_index (heapArray g ! k) = Intg k \<and>
        (\<exists>ch. heapArray g ! k =
           (make_node heapData (node_types (meta (snapshot heapData)) ! 0)
              (k * length (node_fields (meta (snapshot heapData)))))\<lparr>children := ch\<rparr>))"
proof -
  let ?tbl = "node_types (meta (snapshot heapData)) ! 0"
  let ?etbl = "edge_types (meta (snapshot heapData)) ! 0"
  let ?g = "decoded_graph heapData ?tbl ?etbl"
  have r: "handleHeapData heapData = Some (Inr ?g)"
    using assms(1) table_present [OF assms(3)] table_present [OF assms(4)]
    by (rule handleHeapData_result)
  have ha: "heapArray ?g = decoded_nodes heapData ?tbl ?etbl 0"
    by (simp add: decoded_graph_def)
  have len: "length (heapArray ?g)
       = length (nodes heapData) div length (node_fields (meta (snapshot heapData)))"
    unfolding ha using stride_count_dvd [OF assms(1,2)] by simp
  have nodes: "\<forall>k < length (heapArray ?g).
        d_index (heapArray ?g ! k) = Intg k \<and>
        (\<exists>ch. heapArray ?g ! k =
           (make_node heapData ?tbl
              (k * length (node_fields (meta (snapshot heapData)))))\<lparr>children := ch\<rparr>)"
    unfolding ha
    using decoded_node_index [OF assms(1)] decoded_node_fields
    by (simp add: nth_decoded_nodes)
  show ?thesis using r len nodes by blast
qed

text \<open>The chain of eight nodes: 48 numbers in strides of 6.\<close>

theorem heapArray_one_node_per_stride_witness:
  "0 < length (node_fields (meta (snapshot ex_chain))) \<and>
   length (node_fields (meta (snapshot ex_chain))) dvd length (nodes ex_chain) \<and>
   node_types (meta (snapshot ex_chain)) \<noteq> [] \<and>
   edge_types (meta (snapshot ex_chain)) \<noteq> [] \<and>
   (\<exists>g. handleHeapData ex_chain = Some (Inr g) \<and> length (heapArray g) = 8 \<and>
      d_index (heapArray g ! 7) = Intg 7)"
proof -
  have h1: "0 < length (node_fields (meta (snapshot ex_chain)))"
    by (simp add: ex_chain_def ex_meta_def)
  have h2: "length (node_fields (meta (snapshot ex_chain))) dvd length (nodes ex_chain)"
    by code_simp
  have h3: "node_types (meta (snapshot ex_chain)) \<noteq> []"
    by (simp add: ex_chain_def ex_meta_def)
  have h4: "edge_types (meta (snapshot ex_chain)) \<noteq> []"
    by (simp add: ex_chain_def ex_meta_def)
  have n: "length (nodes ex_chain) div length (node_fields (meta (snapshot ex_chain))) = 8"
    by code_simp
  from heapArray_one_node_per_stride [OF h1 h2 h3 h4] n
  obtain g where "handleHeapData ex_chain = Some (Inr g)" "length (heapArray g) = 8"
    "d_index (heapArray g ! 7) = Intg 7"
    by auto
  then show ?thesis using h1 h2 h3 h4 by blast
qed

subsection \<open>Edge arrays that are too short\<close>

lemma length_chunks_le: "length xs \<le> c * n \<Longrightarrow> length (chunks n xs) \<le> c"
proof (induction c arbitrary: xs)
  case 0
  then show ?case by simp
next
  case (Suc c)
  show ?case
  proof (cases "n = 0 \<or> xs = []")
    case True
    then show ?thesis by auto
  next
    case False
    then have "chunks n xs = take n xs # chunks n (drop n xs)" by (simp add: chunks_step)
    moreover have "length (drop n xs) \<le> c * n" using Suc.prems by simp
    ultimately show ?thesis using Suc.IH by simp
  qed
qed

lemma length_js_slice_le: "length (js_slice xs s (s + n)) \<le> n"
  by (simp add: js_slice_def)

lemma decoded_node_children_bound:
  "case edge_count (decoded_node heapData tbl etbl i off) of
     None \<Rightarrow> children (decoded_node heapData tbl etbl i off) = []
   | Some c \<Rightarrow> length (children (decoded_node heapData tbl etbl i off)) \<le> c"
proof (cases "js_index (js_slice (nodes heapData) i
                (i + length (node_fields (meta (snapshot heapData))))) 4")
  case None
  then show ?thesis
    by (simp add: decoded_node_def make_node_def node_span_def Let_def js_mul_def js_add_def
        js_slice_nan_def js_slice_def split: option.splits)
next
  case (Some c)
  let ?efl = "length (edge_fields (meta (snapshot heapData)))"
  have "length (js_slice_nan (edges heapData) off (js_add off (Some (c * ?efl)))) \<le> c * ?efl"
    by (cases off) (simp_all add: js_slice_nan_def js_add_def js_slice_def)
  then have "length (chunks ?efl (js_slice_nan (edges heapData) off (js_add off (Some (c * ?efl))))) \<le> c"
    by (rule length_chunks_le)
  then show ?thesis
    using Some by (simp add: decoded_node_def make_node_def node_span_def Let_def js_mul_def)
qed

lemma chunks_nth:
  assumes "0 < n"
  shows "(j < length (chunks n xs)) = (j * n < length xs) \<and>
         (j * n < length xs \<longrightarrow> chunks n xs ! j = take n (drop (j * n) xs))"
proof (induction j arbitrary: xs)
  case 0
  show ?case
  proof (cases "xs = []")
    case True
    then show ?thesis by simp
  next
    case False
    then show ?thesis using assms by (simp add: chunks_step)
  qed
next
  case (Suc j)
  show ?case
  proof (cases "xs = []")
    case True
    then show ?thesis by simp
  next
    case False
    have ch: "chunks n xs = take n xs # chunks n (drop n xs)"
      using assms False by (rule chunks_step)
    have a: "(j * n < length (drop n xs)) = (Suc j * n < length xs)" by auto
    have b: "drop (j * n) (drop n xs) = drop (Suc j * n) xs" by (simp add: add.commute)
    from Suc [of "drop n xs"] show ?thesis
      unfolding ch a b by simp
  qed
qed

lemma take_eq_by_min:
  assumes "min a (length zs) = min b (length zs)"
  shows "take a zs = take b zs"
proof -
  have "take a zs = take (min a (length zs)) zs" by (simp add: min_def)
  also have "\<dots> = take (min b (length zs)) zs" using assms by simp
  also have "\<dots> = take b zs" by (simp add: min_def)
  finally show ?thesis .
qed

lemma slice_bounds_arith:
  fixes lo d n hi len :: nat
  assumes "lo + d < hi" "lo + d < len"
  shows "min (min n (hi - lo - d)) (len - (lo + d))
           = min (min (lo + d + n) (min hi len) - (lo + d)) (len - (lo + d))"
  using assms by arith

lemma slice_of_slice:
  assumes "lo + d < min hi (length xs)"
  shows "take n (drop d (js_slice xs lo hi))
           = js_slice xs (lo + d) (min (lo + d + n) (min hi (length xs)))"
proof -
  have b: "lo + d < hi" "lo + d < length xs" using assms by simp_all
  have "take n (drop d (js_slice xs lo hi))
          = take (min n (hi - lo - d)) (drop (lo + d) xs)"
    by (simp add: js_slice_def drop_take add.commute min.commute)
  also have "\<dots> = take (min (lo + d + n) (min hi (length xs)) - (lo + d)) (drop (lo + d) xs)"
    by (rule take_eq_by_min) (simp only: length_drop slice_bounds_arith [OF b])
  finally show ?thesis by (simp add: js_slice_def)
qed

lemma decoded_node_children_nth:
  fixes heapData tbl etbl i off j
  defines "n \<equiv> length (edge_fields (meta (snapshot heapData)))"
    and "lo \<equiv> (case off of None \<Rightarrow> 0 | Some a \<Rightarrow> a)"
    and "to \<equiv> min (case js_add off (node_span heapData i) of None \<Rightarrow> 0 | Some b \<Rightarrow> b)
                 (length (edges heapData))"
  shows "(j < length (children (decoded_node heapData tbl etbl i off))) = (lo + j * n < to)"
    and "lo + j * n < to \<Longrightarrow>
         children (decoded_node heapData tbl etbl i off) ! j
           = make_edge heapData etbl
               (js_slice (edges heapData) (lo + j * n) (min (lo + j * n + n) to))"
proof -
  let ?hi = "case js_add off (node_span heapData i) of None \<Rightarrow> 0 | Some b \<Rightarrow> b"
  let ?xs = "js_slice (edges heapData) lo ?hi"
  have ch: "children (decoded_node heapData tbl etbl i off)
              = map (make_edge heapData etbl) (chunks n ?xs)"
    by (simp add: decoded_node_def n_def lo_def js_slice_nan_def)
  have len: "length ?xs = to - lo"
    by (auto simp: js_slice_def to_def min_def)
  show l: "(j < length (children (decoded_node heapData tbl etbl i off))) = (lo + j * n < to)"
  proof (cases "n = 0")
    case True
    have "to \<le> lo"
      unfolding to_def lo_def node_span_def
      using True [unfolded n_def]
      by (auto simp: js_add_def js_mul_def split: option.splits)
    then show ?thesis using True ch by simp
  next
    case False
    then have "(j < length (chunks n ?xs)) = (j * n < length ?xs)"
      using chunks_nth [of n j ?xs] by simp
    then show ?thesis using ch len by auto
  qed
  assume in_range: "lo + j * n < to"
  then have pos: "0 < n"
    using l ch by (cases "n = 0") auto
  have "j * n < length ?xs" using in_range len by simp
  then have "chunks n ?xs ! j = take n (drop (j * n) ?xs)"
    using chunks_nth [OF pos, of j ?xs] by simp
  also have "\<dots> = js_slice (edges heapData) (lo + j * n) (min (lo + j * n + n) to)"
    using in_range unfolding to_def by (rule slice_of_slice)
  finally show "children (decoded_node heapData tbl etbl i off) ! j
           = make_edge heapData etbl
               (js_slice (edges heapData) (lo + j * n) (min (lo + j * n + n) to))"
    using ch in_range l by simp
qed

lemma decoded_nodes_children:
  assumes k: "k < stride_count heapData"
  shows "(j < length (children (decoded_nodes heapData tbl etbl 0 ! k)))
           = (edge_start heapData k j < edges_to heapData k)"
    and "edge_start heapData k j < edges_to heapData k \<Longrightarrow>
         children (decoded_nodes heapData tbl etbl 0 ! k) ! j
           = make_edge heapData etbl
               (js_slice (edges heapData) (edge_start heapData k j) (edge_stop heapData k j))"
  using decoded_node_children_nth
    [where j = j and heapData = heapData and tbl = tbl and etbl = etbl
       and i = "k * length (node_fields (meta (snapshot heapData)))"
       and off = "offset_at heapData k"]
  unfolding nth_decoded_nodes [OF k] edge_start_def edge_stop_def edges_from_def edges_to_def
  by simp_all

text \<open>
  Claim C4, as the code has it. \<open>handleHeapData\<close> has no check of the edge spans and
  raises no truncation error. Whenever \<open>node_fields\<close> is not empty and both type tables
  have their element 0, it returns a graph with one node per stride, however short
  \<open>edges\<close> is: \<open>slice\<close> stops at the end of the array, so a node gets the edges read
  from what is left, at most \<open>edge_count\<close> of them, and none when its \<open>edge_count\<close>
  is missing. The node of index \<open>k\<close> has an edge \<open>j\<close> exactly when the record of that
  edge starts inside the part of \<open>edges\<close> read for the node, which ends at the end of
  \<open>edges\<close> at the latest, and the edge is made from the record as far as that part
  goes.
\<close>

theorem handleHeapData_no_truncation_error:
  assumes "0 < length (node_fields (meta (snapshot heapData)))"
    and "node_types (meta (snapshot heapData)) \<noteq> []"
    and "edge_types (meta (snapshot heapData)) \<noteq> []"
  shows "\<exists>g. handleHeapData heapData = Some (Inr g) \<and>
     length (heapArray g)
       = (length (nodes heapData) + length (node_fields (meta (snapshot heapData))) - 1)
           div length (node_fields (meta (snapshot heapData))) \<and>
     (\<forall>nd \<in> set (heapArray g).
        case edge_count nd of None \<Rightarrow> children nd = []
        | Some c \<Rightarrow> length (children nd) \<le> c) \<and>
     (\<forall>k < length (heapArray g). \<forall>j.
        (j < length (children (heapArray g ! k)))
          = (edge_start heapData k j < edges_to heapData k) \<and>
        (j < length (children (heapArray g ! k)) \<longrightarrow>
           children (heapArray g ! k) ! j
             = make_edge heapData (edge_types (meta (snapshot heapData)) ! 0)
                 (js_slice (edges heapData) (edge_start heapData k j)
                    (edge_stop heapData k j))))"
proof -
  let ?tbl = "node_types (meta (snapshot heapData)) ! 0"
  let ?etbl = "edge_types (meta (snapshot heapData)) ! 0"
  let ?g = "decoded_graph heapData ?tbl ?etbl"
  have r: "handleHeapData heapData = Some (Inr ?g)"
    using assms(1) table_present [OF assms(2)] table_present [OF assms(3)]
    by (rule handleHeapData_result)
  have ha: "heapArray ?g = decoded_nodes heapData ?tbl ?etbl 0"
    by (simp add: decoded_graph_def)
  have len: "length (heapArray ?g)
       = (length (nodes heapData) + length (node_fields (meta (snapshot heapData))) - 1)
           div length (node_fields (meta (snapshot heapData)))"
    unfolding ha by (simp add: stride_count_def)
  have bound: "\<forall>nd \<in> set (heapArray ?g).
        case edge_count nd of None \<Rightarrow> children nd = []
        | Some c \<Rightarrow> length (children nd) \<le> c"
    unfolding ha decoded_nodes_def using decoded_node_children_bound by auto
  have "(j < length (children (heapArray ?g ! k)))
          = (edge_start heapData k j < edges_to heapData k) \<and>
        (j < length (children (heapArray ?g ! k)) \<longrightarrow>
           children (heapArray ?g ! k) ! j
             = make_edge heapData ?etbl
                 (js_slice (edges heapData) (edge_start heapData k j)
                    (edge_stop heapData k j)))"
    if "k < length (heapArray ?g)" for k j
  proof -
    have k: "k < stride_count heapData" using that unfolding ha by simp
    show ?thesis
      unfolding ha
      using decoded_nodes_children(1) [OF k, of j ?tbl ?etbl]
        decoded_nodes_children(2) [OF k, of j ?tbl ?etbl]
      by blast
  qed
  then have read: "\<forall>k < length (heapArray ?g). \<forall>j.
        (j < length (children (heapArray ?g ! k)))
          = (edge_start heapData k j < edges_to heapData k) \<and>
        (j < length (children (heapArray ?g ! k)) \<longrightarrow>
           children (heapArray ?g ! k) ! j
             = make_edge heapData ?etbl
                 (js_slice (edges heapData) (edge_start heapData k j)
                    (edge_stop heapData k j)))"
    by (intro allI impI)
  show ?thesis
    by (rule exI [of _ ?g]) (intro conjI r len bound read)
qed

text \<open>On the snapshot whose node 0 declares two edges while \<open>edges\<close> holds four
  numbers, the record of the edge 1 of the node 0 starts at the position 3 and stops at
  4, the end of \<open>edges\<close>.\<close>

theorem handleHeapData_no_truncation_error_witness:
  "0 < length (node_fields (meta (snapshot ex_truncated))) \<and>
   node_types (meta (snapshot ex_truncated)) \<noteq> [] \<and>
   edge_types (meta (snapshot ex_truncated)) \<noteq> [] \<and>
   length (edges ex_truncated) < 2 * length (edge_fields (meta (snapshot ex_truncated))) \<and>
   edge_start ex_truncated 0 1 = 3 \<and> edge_stop ex_truncated 0 1 = 4 \<and>
   edges_to ex_truncated 0 = 4 \<and>
   (\<exists>g. handleHeapData ex_truncated = Some (Inr g) \<and> length (heapArray g) = 2 \<and>
      edge_count (heapArray g ! 0) = Some 2 \<and>
      length (children (heapArray g ! 0)) \<le> 2 \<and>
      1 < length (children (heapArray g ! 0)) \<and>
      children (heapArray g ! 0) ! 1
        = make_edge ex_truncated (edge_types (meta (snapshot ex_truncated)) ! 0)
            (js_slice (edges ex_truncated) 3 4))"
proof -
  have h1: "0 < length (node_fields (meta (snapshot ex_truncated)))"
    by (simp add: ex_truncated_def ex_meta_def)
  have h2: "node_types (meta (snapshot ex_truncated)) \<noteq> []"
    by (simp add: ex_truncated_def ex_meta_def)
  have h3: "edge_types (meta (snapshot ex_truncated)) \<noteq> []"
    by (simp add: ex_truncated_def ex_meta_def)
  have h4: "length (edges ex_truncated) < 2 * length (edge_fields (meta (snapshot ex_truncated)))"
    by (simp add: ex_truncated_def ex_meta_def)
  have p: "edge_start ex_truncated 0 1 = 3" "edge_stop ex_truncated 0 1 = 4"
    "edges_to ex_truncated 0 = 4"
    by code_simp+
  have n: "(length (nodes ex_truncated) + length (node_fields (meta (snapshot ex_truncated))) - 1)
           div length (node_fields (meta (snapshot ex_truncated))) = 2"
    by code_simp
  have ec: "edge_count (heapArray (projr (the (handleHeapData ex_truncated))) ! 0) = Some 2"
    by code_simp
  from handleHeapData_no_truncation_error [OF h1 h2 h3]
  obtain g where g: "handleHeapData ex_truncated = Some (Inr g)"
    and gl: "length (heapArray g)
       = (length (nodes ex_truncated) + length (node_fields (meta (snapshot ex_truncated))) - 1)
           div length (node_fields (meta (snapshot ex_truncated)))"
    and bound: "\<forall>nd \<in> set (heapArray g).
        case edge_count nd of None \<Rightarrow> children nd = []
        | Some c \<Rightarrow> length (children nd) \<le> c"
    and read: "\<forall>k < length (heapArray g). \<forall>j.
        (j < length (children (heapArray g ! k)))
          = (edge_start ex_truncated k j < edges_to ex_truncated k) \<and>
        (j < length (children (heapArray g ! k)) \<longrightarrow>
           children (heapArray g ! k) ! j
             = make_edge ex_truncated (edge_types (meta (snapshot ex_truncated)) ! 0)
                 (js_slice (edges ex_truncated) (edge_start ex_truncated k j)
                    (edge_stop ex_truncated k j)))"
    by blast
  have g2: "length (heapArray g) = 2" using gl n by simp
  from g ec have ec': "edge_count (heapArray g ! 0) = Some 2" by simp
  have "heapArray g ! 0 \<in> set (heapArray g)" using g2 by simp
  with bound ec' have le: "length (children (heapArray g ! 0)) \<le> 2" by fastforce
  have k0: "0 < length (heapArray g)" using g2 by simp
  from read k0 have c1: "(1 < length (children (heapArray g ! 0)))
          = (edge_start ex_truncated 0 1 < edges_to ex_truncated 0)"
    by blast
  have one: "1 < length (children (heapArray g ! 0))" unfolding c1 p by simp
  from read k0 one have "children (heapArray g ! 0) ! 1
             = make_edge ex_truncated (edge_types (meta (snapshot ex_truncated)) ! 0)
                 (js_slice (edges ex_truncated) (edge_start ex_truncated 0 1)
                    (edge_stop ex_truncated 0 1))"
    by blast
  then have rd: "children (heapArray g ! 0) ! 1
        = make_edge ex_truncated (edge_types (meta (snapshot ex_truncated)) ! 0)
            (js_slice (edges ex_truncated) 3 4)"
    unfolding p .
  from g g2 ec' le one rd
  have "\<exists>g. handleHeapData ex_truncated = Some (Inr g) \<and> length (heapArray g) = 2 \<and>
      edge_count (heapArray g ! 0) = Some 2 \<and>
      length (children (heapArray g ! 0)) \<le> 2 \<and>
      1 < length (children (heapArray g ! 0)) \<and>
      children (heapArray g ! 0) ! 1
        = make_edge ex_truncated (edge_types (meta (snapshot ex_truncated)) ! 0)
            (js_slice (edges ex_truncated) 3 4)"
    by blast
  with h1 h2 h3 h4 p show ?thesis by blast
qed

text \<open>C4 as it is written fails on this snapshot: the call returns both nodes. Node 0
  has its first edge and a second one read from the single number that is left.\<close>

theorem handleHeapData_truncated_counterexample:
  "length (edges ex_truncated) < 2 * length (edge_fields (meta (snapshot ex_truncated))) \<and>
   map_option (map_sum id heapArray) (handleHeapData ex_truncated) =
     Some (Inr
       [\<lparr>d_index = Intg 0, d_type = Some ''object'', d_name = Some ''root'', d_id = ''@1'',
         self_size = Some 0, retain_size = Some 0, edge_count = Some 2,
         trace_node_id = Some 0,
         children =
           [\<lparr>e_index = Intg 1, e_type = Some ''property'', name_or_index = ''a'',
             to_node = ''@3''\<rparr>,
            \<lparr>e_index = NaN, e_type = Some ''element'', name_or_index = ''[undefined]'',
             to_node = ''@undefined''\<rparr>],
         retainedSize = None, distance = None\<rparr>,
        \<lparr>d_index = Intg 1, d_type = Some ''object'', d_name = Some ''a'', d_id = ''@3'',
         self_size = Some 10, retain_size = Some 10, edge_count = Some 1,
         trace_node_id = Some 0, children = [], retainedSize = None, distance = None\<rparr>])"
  by code_simp

subsection \<open>The root\<close>

lemma js_index_slice:
  "js_index (js_slice xs s (s + n)) j = (if j < n then js_index xs (s + j) else None)"
  by (auto simp: js_index_def js_slice_def)

lemma decoded_node_id:
  assumes "3 \<le> length (node_fields (meta (snapshot heapData)))"
  shows "d_id (decoded_node heapData tbl etbl i off)
           = ''@'' @ js_string (js_index (nodes heapData) (i + 2))"
  using assms by (simp add: decoded_node_def make_node_def Let_def js_index_slice)

text \<open>
  Claim C7, as the code has it. \<open>rootIndex\<close> is \<open>snapshot.root_index\<close>, and 0 when
  that is absent or 0. \<open>rootID\<close> is \<open>"@"\<close> followed by the number at position
  \<open>rootIndex + 2\<close> of the flat \<open>nodes\<close> array: \<open>rootIndex\<close> is used as the position
  where a stride starts, not as a node index. So \<open>rootID\<close> is the identity of the node
  of index \<open>k\<close> when \<open>rootIndex = k * node_fields.length\<close>; with the default root 0
  it is the identity of node 0.
\<close>

theorem rootID_at_flat_offset:
  assumes "3 \<le> length (node_fields (meta (snapshot heapData)))"
    and "node_types (meta (snapshot heapData)) \<noteq> []"
    and "edge_types (meta (snapshot heapData)) \<noteq> []"
  shows "\<exists>g. handleHeapData heapData = Some (Inr g) \<and>
     rootIndex g = js_or_default (root_index (snapshot heapData)) 0 \<and>
     rootID g = ''@'' @ js_string (js_index (nodes heapData) (rootIndex g + 2)) \<and>
     (\<forall>k < length (heapArray g).
        rootIndex g = k * length (node_fields (meta (snapshot heapData))) \<longrightarrow>
        rootID g = d_id (heapArray g ! k)) \<and>
     (root_index (snapshot heapData) = None \<longrightarrow> rootIndex g = 0)"
proof -
  let ?tbl = "node_types (meta (snapshot heapData)) ! 0"
  let ?etbl = "edge_types (meta (snapshot heapData)) ! 0"
  let ?g = "decoded_graph heapData ?tbl ?etbl"
  have pos: "0 < length (node_fields (meta (snapshot heapData)))" using assms(1) by linarith
  have r: "handleHeapData heapData = Some (Inr ?g)"
    using pos table_present [OF assms(2)] table_present [OF assms(3)]
    by (rule handleHeapData_result)
  have ha: "heapArray ?g = decoded_nodes heapData ?tbl ?etbl 0"
    by (simp add: decoded_graph_def)
  have ri: "rootIndex ?g = js_or_default (root_index (snapshot heapData)) 0"
    and rid: "rootID ?g = ''@'' @ js_string (js_index (nodes heapData) (rootIndex ?g + 2))"
    by (simp_all add: decoded_graph_def)
  have at: "\<forall>k < length (heapArray ?g).
        rootIndex ?g = k * length (node_fields (meta (snapshot heapData))) \<longrightarrow>
        rootID ?g = d_id (heapArray ?g ! k)"
    unfolding ha using rid decoded_node_id [OF assms(1)]
    by (simp add: nth_decoded_nodes)
  have dflt: "root_index (snapshot heapData) = None \<longrightarrow> rootIndex ?g = 0"
    by (simp add: ri js_or_default_def)
  show ?thesis by (intro exI [of _ ?g] conjI r ri rid at dflt)
qed

text \<open>The chain with the root declared at flat position 6: \<open>rootID\<close> is the identity
  of the node of index 1.\<close>

theorem rootID_at_flat_offset_witness:
  "3 \<le> length (node_fields (meta (snapshot ex_rooted))) \<and>
   node_types (meta (snapshot ex_rooted)) \<noteq> [] \<and>
   edge_types (meta (snapshot ex_rooted)) \<noteq> [] \<and>
   (\<exists>g. handleHeapData ex_rooted = Some (Inr g) \<and> rootIndex g = 6 \<and>
      1 < length (heapArray g) \<and>
      rootIndex g = 1 * length (node_fields (meta (snapshot ex_rooted))) \<and>
      rootID g = d_id (heapArray g ! 1) \<and> rootID g = ''@3'')"
proof -
  have h1: "3 \<le> length (node_fields (meta (snapshot ex_rooted)))"
    by (simp add: ex_rooted_def ex_meta_def)
  have h2: "node_types (meta (snapshot ex_rooted)) \<noteq> []"
    by (simp add: ex_rooted_def ex_meta_def)
  have h3: "edge_types (meta (snapshot ex_rooted)) \<noteq> []"
    by (simp add: ex_rooted_def ex_meta_def)
  have run: "length (heapArray (projr (the (handleHeapData ex_rooted)))) = 8"
    "rootID (projr (the (handleHeapData ex_rooted))) = ''@3''"
    by code_simp+
  have w: "length (node_fields (meta (snapshot ex_rooted))) = 6"
    "js_or_default (root_index (snapshot ex_rooted)) 0 = 6"
    by (simp_all add: ex_rooted_def ex_meta_def js_or_default_def)
  from rootID_at_flat_offset [OF h1 h2 h3]
  obtain g where g: "handleHeapData ex_rooted = Some (Inr g)"
    "rootIndex g = js_or_default (root_index (snapshot ex_rooted)) 0"
    "\<forall>k < length (heapArray g).
        rootIndex g = k * length (node_fields (meta (snapshot ex_rooted))) \<longrightarrow>
        rootID g = d_id (heapArray g ! k)"
    by blast
  from g(1) run have len: "length (heapArray g) = 8" and rid: "rootID g = ''@3''" by simp_all
  have ri: "rootIndex g = 6" using g(2) w(2) by (rule trans)
  have k1: "1 < length (heapArray g)" unfolding len by simp
  have eq: "rootIndex g = 1 * length (node_fields (meta (snapshot ex_rooted)))"
    unfolding ri w(1) by simp
  from g(3) k1 eq have at: "rootID g = d_id (heapArray g ! 1)" by blast
  from g(1) ri k1 eq at rid
  have "\<exists>g. handleHeapData ex_rooted = Some (Inr g) \<and> rootIndex g = 6 \<and>
      1 < length (heapArray g) \<and>
      rootIndex g = 1 * length (node_fields (meta (snapshot ex_rooted))) \<and>
      rootID g = d_id (heapArray g ! 1) \<and> rootID g = ''@3''"
    by blast
  with h1 h2 h3 show ?thesis by blast
qed

text \<open>C7 as it is written fails on the same snapshot: \<open>rootIndex\<close> is 6, the node of
  index 6 has the identity \<open>@13\<close>, and \<open>rootID\<close> is \<open>@3\<close>.\<close>

theorem rootID_not_node_at_rootIndex_counterexample:
  "map_option (map_sum id root_summary) (handleHeapData ex_rooted) =
     Some (Inr (6, ''@3'',
       [(Intg 0, ''@1''), (Intg 1, ''@3''), (Intg 2, ''@5''), (Intg 3, ''@7''),
        (Intg 4, ''@9''), (Intg 5, ''@11''), (Intg 6, ''@13''), (Intg 7, ''@15'')])) \<and>
   ''@3'' \<noteq> ''@13''"
  by code_simp

subsection \<open>The edge map\<close>

lemma em_le_refl: "em_le em em"
  by (auto simp: em_le_def)

lemma em_le_trans: "em_le a b \<Longrightarrow> em_le b c \<Longrightarrow> em_le a c"
  unfolding em_le_def by (meson subset_trans)

lemma push_from_le: "em_le em (push_from em k info)"
  by (auto simp: em_le_def push_from_def split: option.splits)

lemma push_to_le: "em_le em (push_to em k info)"
  by (auto simp: em_le_def push_to_def split: option.splits)

lemma push_from_has:
  "\<exists>ent. push_from em k info k = Some ent \<and> info \<in> set (from_ids ent)"
  by (auto simp: push_from_def split: option.splits)

lemma push_to_has:
  "\<exists>ent. push_to em k info k = Some ent \<and> info \<in> set (to_ids ent)"
  by (auto simp: push_to_def split: option.splits)

lemma record_edge_le: "em_le em (record_edge nid em e)"
  unfolding record_edge_def Let_def
  by (rule em_le_trans [OF push_from_le push_to_le])

lemma record_edge_ok: "edge_ok (record_edge nid em e) nid e"
proof -
  let ?fi = "\<lparr>a_id = nid, a_type = e_type e, a_name_or_index = name_or_index e\<rparr>"
  let ?ti = "\<lparr>a_id = to_node e, a_type = e_type e, a_name_or_index = name_or_index e\<rparr>"
  let ?em1 = "push_from em (to_node e) ?fi"
  let ?em2 = "push_to ?em1 nid ?ti"
  obtain ent1 where e1: "?em1 (to_node e) = Some ent1" "?fi \<in> set (from_ids ent1)"
    using push_from_has by blast
  have "em_le ?em1 ?em2" by (rule push_to_le)
  with e1 obtain ent2 where "?em2 (to_node e) = Some ent2" "?fi \<in> set (from_ids ent2)"
    unfolding em_le_def by blast
  moreover obtain ent3 where "?em2 nid = Some ent3" "?ti \<in> set (to_ids ent3)"
    using push_to_has by blast
  ultimately show ?thesis
    by (auto simp: edge_ok_def record_edge_def Let_def)
qed

lemma edge_ok_mono: "em_le em em' \<Longrightarrow> edge_ok em nid e \<Longrightarrow> edge_ok em' nid e"
  unfolding em_le_def edge_ok_def by (meson subsetD)

lemma foldl_record_edge_le: "em_le em (foldl (record_edge nid) em es)"
proof (induction es arbitrary: em)
  case Nil
  show ?case by (simp add: em_le_refl)
next
  case (Cons e es)
  show ?case
    using em_le_trans [OF record_edge_le Cons.IH] by simp
qed

lemma foldl_record_edge_ok: "e \<in> set es \<Longrightarrow> edge_ok (foldl (record_edge nid) em es) nid e"
proof (induction es arbitrary: em)
  case Nil
  then show ?case by simp
next
  case (Cons x es)
  show ?case
  proof (cases "e = x")
    case True
    have "edge_ok (record_edge nid em x) nid x" by (rule record_edge_ok)
    then show ?thesis
      using True edge_ok_mono [OF foldl_record_edge_le] by simp
  next
    case False
    then show ?thesis using Cons by simp
  qed
qed

lemma record_node_le: "em_le em (record_node em nd)"
  unfolding record_node_def by (rule foldl_record_edge_le)

lemma foldl_record_node_le: "em_le em (foldl record_node em ns)"
proof (induction ns arbitrary: em)
  case Nil
  show ?case by (simp add: em_le_refl)
next
  case (Cons n ns)
  show ?case
    using em_le_trans [OF record_node_le Cons.IH] by simp
qed

lemma foldl_record_node_ok:
  "nd \<in> set ns \<Longrightarrow> e \<in> set (children nd) \<Longrightarrow> edge_ok (foldl record_node em ns) (d_id nd) e"
proof (induction ns arbitrary: em)
  case Nil
  then show ?case by simp
next
  case (Cons n ns)
  show ?case
  proof (cases "nd = n")
    case True
    have "edge_ok (record_node em n) (d_id n) e"
      unfolding record_node_def using Cons.prems(2) True by (intro foldl_record_edge_ok) simp
    then show ?thesis
      using True edge_ok_mono [OF foldl_record_node_le] by simp
  next
    case False
    then show ?thesis using Cons by simp
  qed
qed

lemma make_edge_target:
  assumes "3 \<le> length (node_fields (meta (snapshot heapData)))"
    and "e_index (make_edge heapData etbl raw) = Intg m"
  shows "to_node (make_edge heapData etbl raw)
           = ''@'' @ js_string (js_index (nodes heapData)
                       (m * length (node_fields (meta (snapshot heapData))) + 2))"
proof -
  let ?w = "length (node_fields (meta (snapshot heapData)))"
  from assms(2) obtain x where x: "js_index raw 2 = Some x" "?w dvd x" "m = x div ?w"
    by (auto simp: make_edge_def js_div_def split: option.splits if_splits)
  have "0 < ?w" using assms(1) by linarith
  then have "m * ?w = x" using x(2,3) by simp
  then show ?thesis
    using x(1) by (simp add: make_edge_def js_add_def js_index_opt_def)
qed

lemma decoded_node_children_made:
  "e \<in> set (children (decoded_node heapData tbl etbl i off)) \<Longrightarrow>
   \<exists>raw. e = make_edge heapData etbl raw"
  by (auto simp: decoded_node_def)

text \<open>
  Claim C5. For a capture with a non-empty \<open>node_fields\<close> and both type tables,
  \<open>handleHeapData\<close> returns a graph in which every edge \<open>e\<close> of every node \<open>A\<close> is
  entered twice in \<open>edgesMap\<close>: the entry under the identity of the target,
  \<open>to_node e\<close>, has \<open>A\<close>'s identity in its \<open>from_ids\<close>, and the entry under \<open>A\<close>'s
  identity has the target's identity in its \<open>to_ids\<close>, both with the type and the label
  of the edge. The target's identity is that of the node \<open>B\<close> at the index of the edge,
  when the stride has the identity column (three fields or more) and the index is one of
  the graph's.
\<close>

theorem edgesMap_bidirectional:
  assumes "0 < length (node_fields (meta (snapshot heapData)))"
    and "node_types (meta (snapshot heapData)) \<noteq> []"
    and "edge_types (meta (snapshot heapData)) \<noteq> []"
  shows "\<exists>g. handleHeapData heapData = Some (Inr g) \<and>
     (\<forall>nd \<in> set (heapArray g). \<forall>e \<in> set (children nd).
        (\<exists>ent. edgesMap g (to_node e) = Some ent \<and>
           \<lparr>a_id = d_id nd, a_type = e_type e, a_name_or_index = name_or_index e\<rparr>
             \<in> set (from_ids ent)) \<and>
        (\<exists>ent. edgesMap g (d_id nd) = Some ent \<and>
           \<lparr>a_id = to_node e, a_type = e_type e, a_name_or_index = name_or_index e\<rparr>
             \<in> set (to_ids ent)) \<and>
        (\<forall>m < length (heapArray g).
           3 \<le> length (node_fields (meta (snapshot heapData))) \<longrightarrow> e_index e = Intg m \<longrightarrow>
           to_node e = d_id (heapArray g ! m)))"
proof -
  let ?tbl = "node_types (meta (snapshot heapData)) ! 0"
  let ?etbl = "edge_types (meta (snapshot heapData)) ! 0"
  let ?w = "length (node_fields (meta (snapshot heapData)))"
  let ?g = "decoded_graph heapData ?tbl ?etbl"
  let ?ns = "decoded_nodes heapData ?tbl ?etbl 0"
  have r: "handleHeapData heapData = Some (Inr ?g)"
    using assms(1) table_present [OF assms(2)] table_present [OF assms(3)]
    by (rule handleHeapData_result)
  have ha: "heapArray ?g = ?ns" and em: "edgesMap ?g = foldl record_node Map.empty ?ns"
    by (simp_all add: decoded_graph_def)
  have main: "\<forall>nd \<in> set ?ns. \<forall>e \<in> set (children nd).
        (\<exists>ent. foldl record_node Map.empty ?ns (to_node e) = Some ent \<and>
           \<lparr>a_id = d_id nd, a_type = e_type e, a_name_or_index = name_or_index e\<rparr>
             \<in> set (from_ids ent)) \<and>
        (\<exists>ent. foldl record_node Map.empty ?ns (d_id nd) = Some ent \<and>
           \<lparr>a_id = to_node e, a_type = e_type e, a_name_or_index = name_or_index e\<rparr>
             \<in> set (to_ids ent)) \<and>
        (\<forall>m < length ?ns. 3 \<le> ?w \<longrightarrow> e_index e = Intg m \<longrightarrow> to_node e = d_id (?ns ! m))"
  proof (intro ballI conjI allI impI)
    fix nd e
    assume nd: "nd \<in> set ?ns" and e: "e \<in> set (children nd)"
    have ok: "edge_ok (foldl record_node Map.empty ?ns) (d_id nd) e"
      using nd e by (rule foldl_record_node_ok)
    show "\<exists>ent. foldl record_node Map.empty ?ns (to_node e) = Some ent \<and>
           \<lparr>a_id = d_id nd, a_type = e_type e, a_name_or_index = name_or_index e\<rparr>
             \<in> set (from_ids ent)"
      using ok by (simp add: edge_ok_def)
    show "\<exists>ent. foldl record_node Map.empty ?ns (d_id nd) = Some ent \<and>
           \<lparr>a_id = to_node e, a_type = e_type e, a_name_or_index = name_or_index e\<rparr>
             \<in> set (to_ids ent)"
      using ok by (simp add: edge_ok_def)
    fix m
    assume m: "m < length ?ns" and w: "3 \<le> ?w" and ei: "e_index e = Intg m"
    from nd e obtain raw where raw: "e = make_edge heapData ?etbl raw"
      using decoded_node_children_made by (fastforce simp: decoded_nodes_def)
    have "to_node e = ''@'' @ js_string (js_index (nodes heapData) (m * ?w + 2))"
      using make_edge_target [OF w] ei raw by simp
    moreover have "d_id (?ns ! m) = ''@'' @ js_string (js_index (nodes heapData) (m * ?w + 2))"
      using m decoded_node_id [OF w] by (simp add: nth_decoded_nodes)
    ultimately show "to_node e = d_id (?ns ! m)" by simp
  qed
  have key: "\<forall>nd \<in> set (heapArray ?g). \<forall>e \<in> set (children nd).
        (\<exists>ent. edgesMap ?g (to_node e) = Some ent \<and>
           \<lparr>a_id = d_id nd, a_type = e_type e, a_name_or_index = name_or_index e\<rparr>
             \<in> set (from_ids ent)) \<and>
        (\<exists>ent. edgesMap ?g (d_id nd) = Some ent \<and>
           \<lparr>a_id = to_node e, a_type = e_type e, a_name_or_index = name_or_index e\<rparr>
             \<in> set (to_ids ent)) \<and>
        (\<forall>m < length (heapArray ?g). 3 \<le> ?w \<longrightarrow> e_index e = Intg m \<longrightarrow>
           to_node e = d_id (heapArray ?g ! m))"
    unfolding ha em by (rule main)
  show ?thesis
    by (rule exI [of _ ?g]) (intro conjI r key)
qed

text \<open>On the chain, the node \<open>@3\<close> has an element edge labelled \<open>[3]\<close> to the node
  \<open>@5\<close>, which is the node of index 2.\<close>

theorem edgesMap_bidirectional_witness:
  "0 < length (node_fields (meta (snapshot ex_chain))) \<and>
   node_types (meta (snapshot ex_chain)) \<noteq> [] \<and>
   edge_types (meta (snapshot ex_chain)) \<noteq> [] \<and>
   (\<exists>g ent ent'. handleHeapData ex_chain = Some (Inr g) \<and>
      d_id (heapArray g ! 1) = ''@3'' \<and>
      children (heapArray g ! 1) =
        [\<lparr>e_index = Intg 2, e_type = Some ''element'', name_or_index = ''[3]'',
          to_node = ''@5''\<rparr>] \<and>
      edgesMap g ''@5'' = Some ent \<and>
      \<lparr>a_id = ''@3'', a_type = Some ''element'', a_name_or_index = ''[3]''\<rparr> \<in> set (from_ids ent) \<and>
      edgesMap g ''@3'' = Some ent' \<and>
      \<lparr>a_id = ''@5'', a_type = Some ''element'', a_name_or_index = ''[3]''\<rparr> \<in> set (to_ids ent') \<and>
      d_id (heapArray g ! 2) = ''@5'')"
proof -
  let ?e = "\<lparr>e_index = Intg 2, e_type = Some ''element'', name_or_index = ''[3]'',
          to_node = ''@5''\<rparr>"
  have h1: "0 < length (node_fields (meta (snapshot ex_chain)))"
    by (simp add: ex_chain_def ex_meta_def)
  have h2: "node_types (meta (snapshot ex_chain)) \<noteq> []"
    by (simp add: ex_chain_def ex_meta_def)
  have h3: "edge_types (meta (snapshot ex_chain)) \<noteq> []"
    by (simp add: ex_chain_def ex_meta_def)
  have h4: "3 \<le> length (node_fields (meta (snapshot ex_chain)))"
    by (simp add: ex_chain_def ex_meta_def)
  have run: "length (heapArray (projr (the (handleHeapData ex_chain)))) = 8"
    "d_id (heapArray (projr (the (handleHeapData ex_chain))) ! 1) = ''@3''"
    "children (heapArray (projr (the (handleHeapData ex_chain))) ! 1) = [?e]"
    by code_simp+
  from edgesMap_bidirectional [OF h1 h2 h3]
  obtain g where g: "handleHeapData ex_chain = Some (Inr g)"
    and all: "\<forall>nd \<in> set (heapArray g). \<forall>e \<in> set (children nd).
        (\<exists>ent. edgesMap g (to_node e) = Some ent \<and>
           \<lparr>a_id = d_id nd, a_type = e_type e, a_name_or_index = name_or_index e\<rparr>
             \<in> set (from_ids ent)) \<and>
        (\<exists>ent. edgesMap g (d_id nd) = Some ent \<and>
           \<lparr>a_id = to_node e, a_type = e_type e, a_name_or_index = name_or_index e\<rparr>
             \<in> set (to_ids ent)) \<and>
        (\<forall>m < length (heapArray g).
           3 \<le> length (node_fields (meta (snapshot ex_chain))) \<longrightarrow> e_index e = Intg m \<longrightarrow>
           to_node e = d_id (heapArray g ! m))"
    by blast
  from g run have len: "length (heapArray g) = 8" and id1: "d_id (heapArray g ! 1) = ''@3''"
    and ch1: "children (heapArray g ! 1) = [?e]"
    by simp_all
  have nd: "heapArray g ! 1 \<in> set (heapArray g)" using len by simp
  have e: "?e \<in> set (children (heapArray g ! 1))" using ch1 by simp
  from all nd e id1
  obtain ent ent' where ents: "edgesMap g ''@5'' = Some ent"
    "\<lparr>a_id = ''@3'', a_type = Some ''element'', a_name_or_index = ''[3]''\<rparr> \<in> set (from_ids ent)"
    "edgesMap g ''@3'' = Some ent'"
    "\<lparr>a_id = ''@5'', a_type = Some ''element'', a_name_or_index = ''[3]''\<rparr> \<in> set (to_ids ent')"
    by fastforce
  have m: "(2::nat) < length (heapArray g)" using len by simp
  from all nd e m h4 have tgt: "d_id (heapArray g ! 2) = ''@5''" by fastforce
  from g id1 ch1 ents tgt
  have "\<exists>g ent ent'. handleHeapData ex_chain = Some (Inr g) \<and>
      d_id (heapArray g ! 1) = ''@3'' \<and> children (heapArray g ! 1) = [?e] \<and>
      edgesMap g ''@5'' = Some ent \<and>
      \<lparr>a_id = ''@3'', a_type = Some ''element'', a_name_or_index = ''[3]''\<rparr> \<in> set (from_ids ent) \<and>
      edgesMap g ''@3'' = Some ent' \<and>
      \<lparr>a_id = ''@5'', a_type = Some ''element'', a_name_or_index = ''[3]''\<rparr> \<in> set (to_ids ent') \<and>
      d_id (heapArray g ! 2) = ''@5''"
    by blast
  with h1 h2 h3 show ?thesis by blast
qed

subsection \<open>Edge labels\<close>

lemma js_index_slice_range:
  assumes "p < q" "q \<le> length xs"
  shows "js_index (js_slice xs p q) j = (if p + j < q then Some (xs ! (p + j)) else None)"
  using assms by (auto simp: js_index_def js_slice_def)

lemma bracket_positions_iff:
  "(js_index tbl t = Some ''element'' \<or> js_index tbl t = Some ''hidden'')
     = (t \<in> set (bracket_positions tbl))"
  by (auto simp: js_index_def bracket_positions_def)

lemma edge_record_bounds:
  assumes "edge_start heapData k j < edges_to heapData k"
  shows "edge_start heapData k j < edge_stop heapData k j"
    and "edge_stop heapData k j \<le> length (edges heapData)"
proof -
  show "edge_stop heapData k j \<le> length (edges heapData)"
    by (simp add: edge_stop_def edges_to_def)
  have "0 < length (edge_fields (meta (snapshot heapData)))"
  proof (rule ccontr)
    assume "\<not> 0 < length (edge_fields (meta (snapshot heapData)))"
    then have z: "length (edge_fields (meta (snapshot heapData))) = 0" by simp
    have "edges_to heapData k \<le> edges_from heapData k"
      unfolding edges_to_def edges_from_def
      by (auto simp: node_span_def z js_add_def js_mul_def split: option.splits)
    then show False using assms by (simp add: edge_start_def z)
  qed
  then show "edge_start heapData k j < edge_stop heapData k j"
    using assms by (simp add: edge_stop_def)
qed

lemma raw_edge_field_slice:
  assumes "edge_start heapData k j < edges_to heapData k"
  shows "js_index (js_slice (edges heapData) (edge_start heapData k j) (edge_stop heapData k j)) f
           = raw_edge_field heapData k j f"
  using edge_record_bounds [OF assms]
  by (simp add: js_index_slice_range raw_edge_field_def)

lemma raw_edge_type_present:
  assumes "edge_start heapData k j < edges_to heapData k"
  shows "raw_edge_field heapData k j 0 = Some (edges heapData ! edge_start heapData k j)"
  using edge_record_bounds(1) [OF assms] by (simp add: raw_edge_field_def)

lemma made_edge_fields:
  "e_type (make_edge heapData etbl node_edge) = js_index_opt etbl (js_index node_edge 0)"
  "name_or_index (make_edge heapData etbl node_edge) =
     (if js_index node_edge 0 = Some kElement \<or> js_index node_edge 0 = Some kHidden
      then ''['' @ js_string (js_index node_edge 1) @ '']''
      else js_template (js_index_opt (strings heapData) (js_index node_edge 1)))"
  by (simp_all add: make_edge_def edge_label_def)

lemma bracket_positions_opt_iff:
  "(js_index_opt tbl (Some t) = Some ''element'' \<or> js_index_opt tbl (Some t) = Some ''hidden'')
     = (t \<in> set (bracket_positions tbl))"
  using bracket_positions_iff [of tbl t] by (simp add: js_index_opt_def)

text \<open>
  Claim C6, as the code has it. The node of index \<open>k\<close> has an edge \<open>j\<close> exactly when
  the record of that edge starts inside the part of \<open>edges\<close> read for the node. The
  type of the edge is the entry of \<open>edge_types[0]\<close> at the raw type, the element 0 of
  the record, which is the number standing at the start of the record. The label is the
  bracketed raw name field, the element 1 of the record, when the raw type is 1
  (\<open>kElement\<close>) or 4 (\<open>kHidden\<close>), and otherwise the string-table entry at the raw name
  field, the text \<open>undefined\<close> when there is none. When \<open>element\<close> and \<open>hidden\<close>
  stand at the positions 1 and 4 of \<open>edge_types[0]\<close> and nowhere else, as in V8's table,
  the bracketed edges are exactly those whose type is \<open>element\<close> or \<open>hidden\<close>: such an
  edge has the bracketed raw name field for its label, and every other edge the
  string-table entry.
\<close>

theorem edge_label_by_raw_type:
  assumes "0 < length (node_fields (meta (snapshot heapData)))"
    and "node_types (meta (snapshot heapData)) \<noteq> []"
    and "edge_types (meta (snapshot heapData)) \<noteq> []"
  shows "\<exists>g. handleHeapData heapData = Some (Inr g) \<and>
     (\<forall>k < length (heapArray g). \<forall>j.
        (j < length (children (heapArray g ! k)))
          = (edge_start heapData k j < edges_to heapData k) \<and>
        (j < length (children (heapArray g ! k)) \<longrightarrow>
           raw_edge_field heapData k j 0 = Some (edges heapData ! edge_start heapData k j) \<and>
           e_type (children (heapArray g ! k) ! j)
             = js_index_opt (edge_types (meta (snapshot heapData)) ! 0)
                 (raw_edge_field heapData k j 0) \<and>
           name_or_index (children (heapArray g ! k) ! j)
             = (if raw_edge_field heapData k j 0 = Some kElement \<or>
                   raw_edge_field heapData k j 0 = Some kHidden
                then ''['' @ js_string (raw_edge_field heapData k j 1) @ '']''
                else js_template (js_index_opt (strings heapData)
                       (raw_edge_field heapData k j 1))) \<and>
           (bracket_positions (edge_types (meta (snapshot heapData)) ! 0) = [kElement, kHidden] \<longrightarrow>
              (e_type (children (heapArray g ! k) ! j) = Some ''element'' \<or>
               e_type (children (heapArray g ! k) ! j) = Some ''hidden'')
                = (raw_edge_field heapData k j 0 = Some kElement \<or>
                   raw_edge_field heapData k j 0 = Some kHidden) \<and>
              name_or_index (children (heapArray g ! k) ! j)
                = (if e_type (children (heapArray g ! k) ! j) = Some ''element'' \<or>
                      e_type (children (heapArray g ! k) ! j) = Some ''hidden''
                   then ''['' @ js_string (raw_edge_field heapData k j 1) @ '']''
                   else js_template (js_index_opt (strings heapData)
                          (raw_edge_field heapData k j 1))))))"
proof -
  let ?tbl = "node_types (meta (snapshot heapData)) ! 0"
  let ?etbl = "edge_types (meta (snapshot heapData)) ! 0"
  let ?g = "decoded_graph heapData ?tbl ?etbl"
  let ?ns = "decoded_nodes heapData ?tbl ?etbl 0"
  have r: "handleHeapData heapData = Some (Inr ?g)"
    using assms(1) table_present [OF assms(2)] table_present [OF assms(3)]
    by (rule handleHeapData_result)
  have ha: "heapArray ?g = ?ns"
    by (simp add: decoded_graph_def)
  have key: "(j < length (children (?ns ! k)))
          = (edge_start heapData k j < edges_to heapData k) \<and>
        (j < length (children (?ns ! k)) \<longrightarrow>
           raw_edge_field heapData k j 0 = Some (edges heapData ! edge_start heapData k j) \<and>
           e_type (children (?ns ! k) ! j)
             = js_index_opt ?etbl (raw_edge_field heapData k j 0) \<and>
           name_or_index (children (?ns ! k) ! j)
             = (if raw_edge_field heapData k j 0 = Some kElement \<or>
                   raw_edge_field heapData k j 0 = Some kHidden
                then ''['' @ js_string (raw_edge_field heapData k j 1) @ '']''
                else js_template (js_index_opt (strings heapData)
                       (raw_edge_field heapData k j 1))) \<and>
           (bracket_positions ?etbl = [kElement, kHidden] \<longrightarrow>
              (e_type (children (?ns ! k) ! j) = Some ''element'' \<or>
               e_type (children (?ns ! k) ! j) = Some ''hidden'')
                = (raw_edge_field heapData k j 0 = Some kElement \<or>
                   raw_edge_field heapData k j 0 = Some kHidden) \<and>
              name_or_index (children (?ns ! k) ! j)
                = (if e_type (children (?ns ! k) ! j) = Some ''element'' \<or>
                      e_type (children (?ns ! k) ! j) = Some ''hidden''
                   then ''['' @ js_string (raw_edge_field heapData k j 1) @ '']''
                   else js_template (js_index_opt (strings heapData)
                          (raw_edge_field heapData k j 1)))))"
    if k: "k < length ?ns" for k j
  proof -
    have k': "k < stride_count heapData" using k by simp
    let ?e = "children (?ns ! k) ! j"
    have cnt: "(j < length (children (?ns ! k))) = (edge_start heapData k j < edges_to heapData k)"
      using k' by (rule decoded_nodes_children(1))
    have rest: "raw_edge_field heapData k j 0 = Some (edges heapData ! edge_start heapData k j) \<and>
           e_type ?e = js_index_opt ?etbl (raw_edge_field heapData k j 0) \<and>
           name_or_index ?e
             = (if raw_edge_field heapData k j 0 = Some kElement \<or>
                   raw_edge_field heapData k j 0 = Some kHidden
                then ''['' @ js_string (raw_edge_field heapData k j 1) @ '']''
                else js_template (js_index_opt (strings heapData)
                       (raw_edge_field heapData k j 1))) \<and>
           (bracket_positions ?etbl = [kElement, kHidden] \<longrightarrow>
              (e_type ?e = Some ''element'' \<or> e_type ?e = Some ''hidden'')
                = (raw_edge_field heapData k j 0 = Some kElement \<or>
                   raw_edge_field heapData k j 0 = Some kHidden) \<and>
              name_or_index ?e
                = (if e_type ?e = Some ''element'' \<or> e_type ?e = Some ''hidden''
                   then ''['' @ js_string (raw_edge_field heapData k j 1) @ '']''
                   else js_template (js_index_opt (strings heapData)
                          (raw_edge_field heapData k j 1))))"
      if j: "j < length (children (?ns ! k))"
    proof -
      have in_range: "edge_start heapData k j < edges_to heapData k" using j cnt by simp
      have e: "?e = make_edge heapData ?etbl
                 (js_slice (edges heapData) (edge_start heapData k j) (edge_stop heapData k j))"
        using k' in_range by (rule decoded_nodes_children(2))
      have raw: "raw_edge_field heapData k j 0 = Some (edges heapData ! edge_start heapData k j)"
        using in_range by (rule raw_edge_type_present)
      have ty: "e_type ?e = js_index_opt ?etbl (raw_edge_field heapData k j 0)"
        unfolding e made_edge_fields raw_edge_field_slice [OF in_range] by (rule refl)
      have lb: "name_or_index ?e
             = (if raw_edge_field heapData k j 0 = Some kElement \<or>
                   raw_edge_field heapData k j 0 = Some kHidden
                then ''['' @ js_string (raw_edge_field heapData k j 1) @ '']''
                else js_template (js_index_opt (strings heapData)
                       (raw_edge_field heapData k j 1)))"
        unfolding e made_edge_fields raw_edge_field_slice [OF in_range] by (rule refl)
      have nm: "(e_type ?e = Some ''element'' \<or> e_type ?e = Some ''hidden'')
                = (raw_edge_field heapData k j 0 = Some kElement \<or>
                   raw_edge_field heapData k j 0 = Some kHidden)"
        if "bracket_positions ?etbl = [kElement, kHidden]"
        unfolding ty raw bracket_positions_opt_iff that by auto
      have by_name: "name_or_index ?e
                = (if e_type ?e = Some ''element'' \<or> e_type ?e = Some ''hidden''
                   then ''['' @ js_string (raw_edge_field heapData k j 1) @ '']''
                   else js_template (js_index_opt (strings heapData)
                          (raw_edge_field heapData k j 1)))"
        if "bracket_positions ?etbl = [kElement, kHidden]"
        using lb nm [OF that] by simp
      show ?thesis
        using raw ty lb nm by_name by blast
    qed
    show ?thesis using cnt rest by blast
  qed
  have "\<forall>k < length ?ns. \<forall>j.
        (j < length (children (?ns ! k)))
          = (edge_start heapData k j < edges_to heapData k) \<and>
        (j < length (children (?ns ! k)) \<longrightarrow>
           raw_edge_field heapData k j 0 = Some (edges heapData ! edge_start heapData k j) \<and>
           e_type (children (?ns ! k) ! j)
             = js_index_opt ?etbl (raw_edge_field heapData k j 0) \<and>
           name_or_index (children (?ns ! k) ! j)
             = (if raw_edge_field heapData k j 0 = Some kElement \<or>
                   raw_edge_field heapData k j 0 = Some kHidden
                then ''['' @ js_string (raw_edge_field heapData k j 1) @ '']''
                else js_template (js_index_opt (strings heapData)
                       (raw_edge_field heapData k j 1))) \<and>
           (bracket_positions ?etbl = [kElement, kHidden] \<longrightarrow>
              (e_type (children (?ns ! k) ! j) = Some ''element'' \<or>
               e_type (children (?ns ! k) ! j) = Some ''hidden'')
                = (raw_edge_field heapData k j 0 = Some kElement \<or>
                   raw_edge_field heapData k j 0 = Some kHidden) \<and>
              name_or_index (children (?ns ! k) ! j)
                = (if e_type (children (?ns ! k) ! j) = Some ''element'' \<or>
                      e_type (children (?ns ! k) ! j) = Some ''hidden''
                   then ''['' @ js_string (raw_edge_field heapData k j 1) @ '']''
                   else js_template (js_index_opt (strings heapData)
                          (raw_edge_field heapData k j 1)))))"
    using key by (intro allI impI)
  then have all: "\<forall>k < length (heapArray ?g). \<forall>j.
        (j < length (children (heapArray ?g ! k)))
          = (edge_start heapData k j < edges_to heapData k) \<and>
        (j < length (children (heapArray ?g ! k)) \<longrightarrow>
           raw_edge_field heapData k j 0 = Some (edges heapData ! edge_start heapData k j) \<and>
           e_type (children (heapArray ?g ! k) ! j)
             = js_index_opt ?etbl (raw_edge_field heapData k j 0) \<and>
           name_or_index (children (heapArray ?g ! k) ! j)
             = (if raw_edge_field heapData k j 0 = Some kElement \<or>
                   raw_edge_field heapData k j 0 = Some kHidden
                then ''['' @ js_string (raw_edge_field heapData k j 1) @ '']''
                else js_template (js_index_opt (strings heapData)
                       (raw_edge_field heapData k j 1))) \<and>
           (bracket_positions ?etbl = [kElement, kHidden] \<longrightarrow>
              (e_type (children (heapArray ?g ! k) ! j) = Some ''element'' \<or>
               e_type (children (heapArray ?g ! k) ! j) = Some ''hidden'')
                = (raw_edge_field heapData k j 0 = Some kElement \<or>
                   raw_edge_field heapData k j 0 = Some kHidden) \<and>
              name_or_index (children (heapArray ?g ! k) ! j)
                = (if e_type (children (heapArray ?g ! k) ! j) = Some ''element'' \<or>
                      e_type (children (heapArray ?g ! k) ! j) = Some ''hidden''
                   then ''['' @ js_string (raw_edge_field heapData k j 1) @ '']''
                   else js_template (js_index_opt (strings heapData)
                          (raw_edge_field heapData k j 1)))))"
    unfolding ha .
  show ?thesis
    by (rule exI [of _ ?g]) (intro conjI r all)
qed

text \<open>On the chain, whose edge type table is V8's, the record of the edge 0 of the
  node 1 starts at the position 3 of \<open>edges\<close>, with the raw type 1 and the raw name
  field 3: the type of the edge is \<open>element\<close> and its label \<open>[3]\<close>.\<close>

theorem edge_label_by_raw_type_witness:
  "0 < length (node_fields (meta (snapshot ex_chain))) \<and>
   node_types (meta (snapshot ex_chain)) \<noteq> [] \<and>
   edge_types (meta (snapshot ex_chain)) \<noteq> [] \<and>
   bracket_positions (edge_types (meta (snapshot ex_chain)) ! 0) = [kElement, kHidden] \<and>
   edge_start ex_chain 1 0 = 3 \<and> edges_to ex_chain 1 = 6 \<and>
   raw_edge_field ex_chain 1 0 0 = Some kElement \<and>
   raw_edge_field ex_chain 1 0 1 = Some 3 \<and>
   (\<exists>g. handleHeapData ex_chain = Some (Inr g) \<and> 1 < length (heapArray g) \<and>
      0 < length (children (heapArray g ! 1)) \<and>
      \<not> 1 < length (children (heapArray g ! 1)) \<and>
      e_type (children (heapArray g ! 1) ! 0) = Some ''element'' \<and>
      name_or_index (children (heapArray g ! 1) ! 0) = ''[3]'')"
proof -
  have h1: "0 < length (node_fields (meta (snapshot ex_chain)))"
    by (simp add: ex_chain_def ex_meta_def)
  have h2: "node_types (meta (snapshot ex_chain)) \<noteq> []"
    by (simp add: ex_chain_def ex_meta_def)
  have h3: "edge_types (meta (snapshot ex_chain)) \<noteq> []"
    by (simp add: ex_chain_def ex_meta_def)
  have h4: "bracket_positions (edge_types (meta (snapshot ex_chain)) ! 0) = [kElement, kHidden]"
    by code_simp
  have p0: "edge_start ex_chain 1 0 = 3" "edges_to ex_chain 1 = 6" by code_simp+
  have p1: "edge_start ex_chain 1 1 = 6" by code_simp
  have f0: "raw_edge_field ex_chain 1 0 0 = Some kElement" by code_simp
  have f1: "raw_edge_field ex_chain 1 0 1 = Some 3" by code_simp
  have et: "js_index_opt (edge_types (meta (snapshot ex_chain)) ! 0) (Some kElement)
              = Some ''element''" by code_simp
  have s3: "''['' @ js_string (Some 3) @ '']'' = ''[3]''" by code_simp
  have run: "length (heapArray (projr (the (handleHeapData ex_chain)))) = 8"
    by code_simp
  from edge_label_by_raw_type [OF h1 h2 h3]
  obtain g where g: "handleHeapData ex_chain = Some (Inr g)"
    and all: "\<forall>k < length (heapArray g). \<forall>j.
        (j < length (children (heapArray g ! k)))
          = (edge_start ex_chain k j < edges_to ex_chain k) \<and>
        (j < length (children (heapArray g ! k)) \<longrightarrow>
           raw_edge_field ex_chain k j 0 = Some (edges ex_chain ! edge_start ex_chain k j) \<and>
           e_type (children (heapArray g ! k) ! j)
             = js_index_opt (edge_types (meta (snapshot ex_chain)) ! 0)
                 (raw_edge_field ex_chain k j 0) \<and>
           name_or_index (children (heapArray g ! k) ! j)
             = (if raw_edge_field ex_chain k j 0 = Some kElement \<or>
                   raw_edge_field ex_chain k j 0 = Some kHidden
                then ''['' @ js_string (raw_edge_field ex_chain k j 1) @ '']''
                else js_template (js_index_opt (strings ex_chain)
                       (raw_edge_field ex_chain k j 1))))"
    by blast
  from g run have len: "1 < length (heapArray g)" by simp
  from all len have c0: "(0 < length (children (heapArray g ! 1)))
          = (edge_start ex_chain 1 0 < edges_to ex_chain 1)"
    and c1: "(1 < length (children (heapArray g ! 1)))
          = (edge_start ex_chain 1 1 < edges_to ex_chain 1)"
    by blast+
  have n0: "0 < length (children (heapArray g ! 1))" unfolding c0 p0 by simp
  have n1: "\<not> 1 < length (children (heapArray g ! 1))" unfolding c1 p0 p1 by simp
  from all len n0 have
    ty: "e_type (children (heapArray g ! 1) ! 0)
             = js_index_opt (edge_types (meta (snapshot ex_chain)) ! 0)
                 (raw_edge_field ex_chain 1 0 0)"
    and lb: "name_or_index (children (heapArray g ! 1) ! 0)
             = (if raw_edge_field ex_chain 1 0 0 = Some kElement \<or>
                   raw_edge_field ex_chain 1 0 0 = Some kHidden
                then ''['' @ js_string (raw_edge_field ex_chain 1 0 1) @ '']''
                else js_template (js_index_opt (strings ex_chain)
                       (raw_edge_field ex_chain 1 0 1)))"
    by blast+
  have ty': "e_type (children (heapArray g ! 1) ! 0) = Some ''element''"
    unfolding ty f0 et by (rule refl)
  have lb': "name_or_index (children (heapArray g ! 1) ! 0) = ''[3]''"
    unfolding lb f0 f1 using s3 by simp
  from g len n0 n1 ty' lb'
  have "\<exists>g. handleHeapData ex_chain = Some (Inr g) \<and> 1 < length (heapArray g) \<and>
      0 < length (children (heapArray g ! 1)) \<and>
      \<not> 1 < length (children (heapArray g ! 1)) \<and>
      e_type (children (heapArray g ! 1) ! 0) = Some ''element'' \<and>
      name_or_index (children (heapArray g ! 1) ! 0) = ''[3]''"
    by blast
  with h1 h2 h3 h4 p0 f0 f1 show ?thesis by blast
qed

text \<open>C6 as it is written fails where the table is not in V8's order: the first edge
  has the type \<open>element\<close> and the raw name field 1, and its label is the string-table
  entry \<open>a\<close>, not \<open>[1]\<close>; the second has the type \<open>context\<close> and the label
  \<open>[7]\<close>.\<close>

theorem edge_label_permuted_table_counterexample:
  "edges ex_permuted = [0, 1, 6, 1, 7, 6] \<and>
   map_option (map_sum id all_children) (handleHeapData ex_permuted) =
     Some (Inr [\<lparr>e_index = Intg 1, e_type = Some ''element'', name_or_index = ''a'',
                 to_node = ''@3''\<rparr>,
                \<lparr>e_index = Intg 1, e_type = Some ''context'', name_or_index = ''[7]'',
                 to_node = ''@3''\<rparr>]) \<and>
   ''a'' \<noteq> ''[1]''"
  by code_simp

subsection \<open>Node fields\<close>

lemma make_node_cong:
  assumes "length (node_fields (meta (snapshot a))) = length (node_fields (meta (snapshot b)))"
    "nodes a = nodes b" "strings a = strings b"
  shows "make_node a tbl i = make_node b tbl i"
  using assms by (simp add: make_node_def)

lemma make_edge_cong:
  assumes "length (node_fields (meta (snapshot a))) = length (node_fields (meta (snapshot b)))"
    "nodes a = nodes b" "strings a = strings b"
  shows "make_edge a etbl raw = make_edge b etbl raw"
  using assms by (simp add: make_edge_def edge_label_def)

lemma node_span_cong:
  assumes "length (node_fields (meta (snapshot a))) = length (node_fields (meta (snapshot b)))"
    "length (edge_fields (meta (snapshot a))) = length (edge_fields (meta (snapshot b)))"
    "nodes a = nodes b"
  shows "node_span a i = node_span b i"
  using assms by (simp add: node_span_def)

lemma offset_at_cong:
  assumes "length (node_fields (meta (snapshot a))) = length (node_fields (meta (snapshot b)))"
    "length (edge_fields (meta (snapshot a))) = length (edge_fields (meta (snapshot b)))"
    "nodes a = nodes b"
  shows "offset_at a k = offset_at b k"
proof (induction k)
  case 0
  show ?case by simp
next
  case (Suc k)
  then show ?case
    using assms(1) node_span_cong [OF assms] by simp
qed

lemma decoded_graph_cong:
  assumes "length (node_fields (meta (snapshot a))) = length (node_fields (meta (snapshot b)))"
    "length (edge_fields (meta (snapshot a))) = length (edge_fields (meta (snapshot b)))"
    "nodes a = nodes b" "edges a = edges b" "strings a = strings b"
    "root_index (snapshot a) = root_index (snapshot b)"
  shows "decoded_graph a tbl etbl = decoded_graph b tbl etbl"
proof -
  have mk: "make_edge a etbl = make_edge b etbl"
    using make_edge_cong [OF assms(1,3,5)] by auto
  have dn: "decoded_node a tbl etbl i off = decoded_node b tbl etbl i off" for i off
    unfolding decoded_node_def
    using make_node_cong [OF assms(1,3,5)] node_span_cong [OF assms(1,2,3)] mk assms(2,4)
    by simp
  have sc: "stride_count a = stride_count b"
    using assms(1,3) by (simp add: stride_count_def)
  have "decoded_nodes a tbl etbl k = decoded_nodes b tbl etbl k" for k
    unfolding decoded_nodes_def
    using dn offset_at_cong [OF assms(1,2,3)] sc assms(1) by simp
  then show ?thesis
    using assms(3,6) by (simp add: decoded_graph_def)
qed

lemma handleHeapData_names_irrelevant:
  assumes "0 < length (node_fields (meta (snapshot heapData)))"
    and "node_types (meta (snapshot heapData)) \<noteq> []"
    and "edge_types (meta (snapshot heapData)) \<noteq> []"
    and "length names = length (node_fields (meta (snapshot heapData)))"
  shows "handleHeapData (with_node_fields names heapData) = handleHeapData heapData"
proof -
  let ?b = "with_node_fields names heapData"
  let ?tbl = "node_types (meta (snapshot heapData)) ! 0"
  let ?etbl = "edge_types (meta (snapshot heapData)) ! 0"
  have same: "length (node_fields (meta (snapshot ?b))) = length (node_fields (meta (snapshot heapData)))"
    "length (edge_fields (meta (snapshot ?b))) = length (edge_fields (meta (snapshot heapData)))"
    "nodes ?b = nodes heapData" "edges ?b = edges heapData" "strings ?b = strings heapData"
    "root_index (snapshot ?b) = root_index (snapshot heapData)"
    "node_types (meta (snapshot ?b)) = node_types (meta (snapshot heapData))"
    "edge_types (meta (snapshot ?b)) = edge_types (meta (snapshot heapData))"
    using assms(4) by (simp_all add: with_node_fields_def)
  have "handleHeapData ?b = Some (Inr (decoded_graph ?b ?tbl ?etbl))"
  proof (rule handleHeapData_result)
    show "0 < length (node_fields (meta (snapshot ?b)))" using assms(1) same(1) by simp
    show "js_index (node_types (meta (snapshot ?b))) 0 = Some ?tbl"
      unfolding same(7) using assms(2) by (rule table_present)
    show "js_index (edge_types (meta (snapshot ?b))) 0 = Some ?etbl"
      unfolding same(8) using assms(3) by (rule table_present)
  qed
  moreover have "handleHeapData heapData = Some (Inr (decoded_graph heapData ?tbl ?etbl))"
    using assms(1) table_present [OF assms(2)] table_present [OF assms(3)]
    by (rule handleHeapData_result)
  moreover have "decoded_graph ?b ?tbl ?etbl = decoded_graph heapData ?tbl ?etbl"
    using same(1-6) by (rule decoded_graph_cong)
  ultimately show ?thesis by simp
qed

lemma schema_node_fixed_order:
  assumes "node_fields (meta (snapshot heapData))
             = [''type'', ''name'', ''id'', ''self_size'', ''edge_count'', ''trace_node_id''] @ rest"
  shows "schema_node heapData tbl i = make_node heapData tbl i"
proof -
  let ?fs = "[''type'', ''name'', ''id'', ''self_size'', ''edge_count'', ''trace_node_id''] @ rest"
  have cols: "field_column ?fs ''type'' = Some 0" "field_column ?fs ''name'' = Some 1"
    "field_column ?fs ''id'' = Some 2" "field_column ?fs ''self_size'' = Some 3"
    "field_column ?fs ''edge_count'' = Some 4" "field_column ?fs ''trace_node_id'' = Some 5"
    by simp_all
  show ?thesis
    unfolding schema_node_def make_node_def assms Let_def cols
    by (simp add: js_index_opt_def)
qed

lemma decoded_node_columns:
  "d_type (decoded_node heapData tbl etbl i off)
     = js_index_opt tbl (js_index (js_slice (nodes heapData) i
         (i + length (node_fields (meta (snapshot heapData))))) 0) \<and>
   d_name (decoded_node heapData tbl etbl i off)
     = js_index_opt (strings heapData) (js_index (js_slice (nodes heapData) i
         (i + length (node_fields (meta (snapshot heapData))))) 1) \<and>
   d_id (decoded_node heapData tbl etbl i off)
     = ''@'' @ js_string (js_index (js_slice (nodes heapData) i
         (i + length (node_fields (meta (snapshot heapData))))) 2) \<and>
   self_size (decoded_node heapData tbl etbl i off)
     = js_index (js_slice (nodes heapData) i
         (i + length (node_fields (meta (snapshot heapData))))) 3 \<and>
   edge_count (decoded_node heapData tbl etbl i off)
     = js_index (js_slice (nodes heapData) i
         (i + length (node_fields (meta (snapshot heapData))))) 4 \<and>
   trace_node_id (decoded_node heapData tbl etbl i off)
     = js_index (js_slice (nodes heapData) i
         (i + length (node_fields (meta (snapshot heapData))))) 5"
  by (simp add: decoded_node_def make_node_def Let_def)

text \<open>
  Claim C8, as the code has it. \<open>handleHeapData\<close> never reads the names in
  \<open>snapshot.meta.node_fields\<close>, only their number, the width of a stride. In every
  stride it reads the type at column 0 (through the type table), the name at column 1
  (through the string table), the identity at column 2, \<open>self_size\<close> at column 3,
  \<open>edge_count\<close> at column 4 and \<open>trace_node_id\<close> at column 5. Replacing the names by
  any other list of the same length leaves the result as it is. The nodes are the ones
  that the declared columns give when the declaration starts with type, name, id,
  self\_size, edge\_count, trace\_node\_id.
\<close>

theorem node_fields_read_at_fixed_columns:
  assumes "0 < length (node_fields (meta (snapshot heapData)))"
    and "node_types (meta (snapshot heapData)) \<noteq> []"
    and "edge_types (meta (snapshot heapData)) \<noteq> []"
  shows "\<exists>g. handleHeapData heapData = Some (Inr g) \<and>
     (\<forall>k < length (heapArray g).
        d_type (heapArray g ! k)
          = js_index_opt (node_types (meta (snapshot heapData)) ! 0)
              (js_index (js_slice (nodes heapData)
                 (k * length (node_fields (meta (snapshot heapData))))
                 (k * length (node_fields (meta (snapshot heapData)))
                    + length (node_fields (meta (snapshot heapData))))) 0) \<and>
        d_name (heapArray g ! k)
          = js_index_opt (strings heapData)
              (js_index (js_slice (nodes heapData)
                 (k * length (node_fields (meta (snapshot heapData))))
                 (k * length (node_fields (meta (snapshot heapData)))
                    + length (node_fields (meta (snapshot heapData))))) 1) \<and>
        d_id (heapArray g ! k)
          = ''@'' @ js_string
              (js_index (js_slice (nodes heapData)
                 (k * length (node_fields (meta (snapshot heapData))))
                 (k * length (node_fields (meta (snapshot heapData)))
                    + length (node_fields (meta (snapshot heapData))))) 2) \<and>
        self_size (heapArray g ! k)
          = js_index (js_slice (nodes heapData)
              (k * length (node_fields (meta (snapshot heapData))))
              (k * length (node_fields (meta (snapshot heapData)))
                 + length (node_fields (meta (snapshot heapData))))) 3 \<and>
        edge_count (heapArray g ! k)
          = js_index (js_slice (nodes heapData)
              (k * length (node_fields (meta (snapshot heapData))))
              (k * length (node_fields (meta (snapshot heapData)))
                 + length (node_fields (meta (snapshot heapData))))) 4 \<and>
        trace_node_id (heapArray g ! k)
          = js_index (js_slice (nodes heapData)
              (k * length (node_fields (meta (snapshot heapData))))
              (k * length (node_fields (meta (snapshot heapData)))
                 + length (node_fields (meta (snapshot heapData))))) 5) \<and>
     (\<forall>names. length names = length (node_fields (meta (snapshot heapData))) \<longrightarrow>
        handleHeapData (with_node_fields names heapData) = Some (Inr g)) \<and>
     (\<forall>rest. node_fields (meta (snapshot heapData))
               = [''type'', ''name'', ''id'', ''self_size'', ''edge_count'', ''trace_node_id'']
                   @ rest \<longrightarrow>
        (\<forall>k < length (heapArray g).
           \<exists>ch. heapArray g ! k =
             (schema_node heapData (node_types (meta (snapshot heapData)) ! 0)
                (k * length (node_fields (meta (snapshot heapData)))))\<lparr>children := ch\<rparr>))"
proof -
  let ?tbl = "node_types (meta (snapshot heapData)) ! 0"
  let ?etbl = "edge_types (meta (snapshot heapData)) ! 0"
  let ?w = "length (node_fields (meta (snapshot heapData)))"
  let ?g = "decoded_graph heapData ?tbl ?etbl"
  have r: "handleHeapData heapData = Some (Inr ?g)"
    using assms(1) table_present [OF assms(2)] table_present [OF assms(3)]
    by (rule handleHeapData_result)
  have ha: "heapArray ?g = decoded_nodes heapData ?tbl ?etbl 0"
    by (simp add: decoded_graph_def)
  have cols: "\<forall>k < length (heapArray ?g).
        d_type (heapArray ?g ! k)
          = js_index_opt ?tbl (js_index (js_slice (nodes heapData) (k * ?w) (k * ?w + ?w)) 0) \<and>
        d_name (heapArray ?g ! k)
          = js_index_opt (strings heapData)
              (js_index (js_slice (nodes heapData) (k * ?w) (k * ?w + ?w)) 1) \<and>
        d_id (heapArray ?g ! k)
          = ''@'' @ js_string (js_index (js_slice (nodes heapData) (k * ?w) (k * ?w + ?w)) 2) \<and>
        self_size (heapArray ?g ! k)
          = js_index (js_slice (nodes heapData) (k * ?w) (k * ?w + ?w)) 3 \<and>
        edge_count (heapArray ?g ! k)
          = js_index (js_slice (nodes heapData) (k * ?w) (k * ?w + ?w)) 4 \<and>
        trace_node_id (heapArray ?g ! k)
          = js_index (js_slice (nodes heapData) (k * ?w) (k * ?w + ?w)) 5"
  proof (intro allI impI)
    fix k
    assume "k < length (heapArray ?g)"
    then have "heapArray ?g ! k = decoded_node heapData ?tbl ?etbl (k * ?w) (offset_at heapData k)"
      unfolding ha by (simp add: nth_decoded_nodes)
    then show "d_type (heapArray ?g ! k)
          = js_index_opt ?tbl (js_index (js_slice (nodes heapData) (k * ?w) (k * ?w + ?w)) 0) \<and>
        d_name (heapArray ?g ! k)
          = js_index_opt (strings heapData)
              (js_index (js_slice (nodes heapData) (k * ?w) (k * ?w + ?w)) 1) \<and>
        d_id (heapArray ?g ! k)
          = ''@'' @ js_string (js_index (js_slice (nodes heapData) (k * ?w) (k * ?w + ?w)) 2) \<and>
        self_size (heapArray ?g ! k)
          = js_index (js_slice (nodes heapData) (k * ?w) (k * ?w + ?w)) 3 \<and>
        edge_count (heapArray ?g ! k)
          = js_index (js_slice (nodes heapData) (k * ?w) (k * ?w + ?w)) 4 \<and>
        trace_node_id (heapArray ?g ! k)
          = js_index (js_slice (nodes heapData) (k * ?w) (k * ?w + ?w)) 5"
      using decoded_node_columns [of heapData ?tbl ?etbl "k * ?w" "offset_at heapData k"]
      by simp
  qed
  have names: "\<forall>names. length names = ?w \<longrightarrow>
        handleHeapData (with_node_fields names heapData) = Some (Inr ?g)"
    using handleHeapData_names_irrelevant [OF assms] r by simp
  have schema: "\<forall>rest. node_fields (meta (snapshot heapData))
               = [''type'', ''name'', ''id'', ''self_size'', ''edge_count'', ''trace_node_id'']
                   @ rest \<longrightarrow>
        (\<forall>k < length (heapArray ?g).
           \<exists>ch. heapArray ?g ! k = (schema_node heapData ?tbl (k * ?w))\<lparr>children := ch\<rparr>)"
  proof (intro allI impI)
    fix rest k
    assume nf: "node_fields (meta (snapshot heapData))
               = [''type'', ''name'', ''id'', ''self_size'', ''edge_count'', ''trace_node_id'']
                   @ rest"
      and k: "k < length (heapArray ?g)"
    from k have "heapArray ?g ! k = decoded_node heapData ?tbl ?etbl (k * ?w) (offset_at heapData k)"
      unfolding ha by (simp add: nth_decoded_nodes)
    then show "\<exists>ch. heapArray ?g ! k = (schema_node heapData ?tbl (k * ?w))\<lparr>children := ch\<rparr>"
      using decoded_node_fields [of heapData ?tbl ?etbl "k * ?w" "offset_at heapData k"]
        schema_node_fixed_order [OF nf, of ?tbl "k * ?w"]
      by simp
  qed
  show ?thesis
    by (rule exI [of _ ?g]) (intro conjI r cols names schema)
qed

text \<open>The swapped declaration decodes as the same fields under V8's names do, the
  type of node 0 read at column 0; and on the chain, declared in V8's order, node 1 is
  the node that the declared columns give.\<close>

theorem node_fields_read_at_fixed_columns_witness:
  "0 < length (node_fields (meta (snapshot ex_swapped))) \<and>
   node_types (meta (snapshot ex_swapped)) \<noteq> [] \<and>
   edge_types (meta (snapshot ex_swapped)) \<noteq> [] \<and>
   length [''type'', ''name'', ''id'', ''self_size'', ''edge_count'', ''trace_node_id'']
     = length (node_fields (meta (snapshot ex_swapped))) \<and>
   (\<exists>g. handleHeapData ex_swapped = Some (Inr g) \<and>
      handleHeapData
        (with_node_fields
           [''type'', ''name'', ''id'', ''self_size'', ''edge_count'', ''trace_node_id'']
           ex_swapped) = Some (Inr g) \<and>
      d_type (heapArray g ! 0) = Some ''hidden'') \<and>
   0 < length (node_fields (meta (snapshot ex_chain))) \<and>
   node_types (meta (snapshot ex_chain)) \<noteq> [] \<and>
   edge_types (meta (snapshot ex_chain)) \<noteq> [] \<and>
   node_fields (meta (snapshot ex_chain))
     = [''type'', ''name'', ''id'', ''self_size'', ''edge_count'', ''trace_node_id''] @ [] \<and>
   (\<exists>g ch. handleHeapData ex_chain = Some (Inr g) \<and>
      heapArray g ! 1 =
        (schema_node ex_chain (node_types (meta (snapshot ex_chain)) ! 0)
           (1 * length (node_fields (meta (snapshot ex_chain)))))\<lparr>children := ch\<rparr>)"
proof -
  let ?v8 = "[''type'', ''name'', ''id'', ''self_size'', ''edge_count'', ''trace_node_id'']"
  have a1: "0 < length (node_fields (meta (snapshot ex_swapped)))"
    by (simp add: ex_swapped_def ex_meta_def)
  have a2: "node_types (meta (snapshot ex_swapped)) \<noteq> []"
    by (simp add: ex_swapped_def ex_meta_def)
  have a3: "edge_types (meta (snapshot ex_swapped)) \<noteq> []"
    by (simp add: ex_swapped_def ex_meta_def)
  have a4: "length ?v8 = length (node_fields (meta (snapshot ex_swapped)))"
    by (simp add: ex_swapped_def ex_meta_def)
  have runa: "d_type (heapArray (projr (the (handleHeapData ex_swapped))) ! 0) = Some ''hidden''"
    by code_simp
  from node_fields_read_at_fixed_columns [OF a1 a2 a3]
  obtain g where g: "handleHeapData ex_swapped = Some (Inr g)"
    and names: "\<forall>names. length names = length (node_fields (meta (snapshot ex_swapped))) \<longrightarrow>
        handleHeapData (with_node_fields names ex_swapped) = Some (Inr g)"
    by blast
  from names a4 have n: "handleHeapData (with_node_fields ?v8 ex_swapped) = Some (Inr g)"
    by blast
  from g runa have t: "d_type (heapArray g ! 0) = Some ''hidden''" by simp
  from g n t have partA: "\<exists>g. handleHeapData ex_swapped = Some (Inr g) \<and>
      handleHeapData (with_node_fields ?v8 ex_swapped) = Some (Inr g) \<and>
      d_type (heapArray g ! 0) = Some ''hidden''"
    by blast
  have b1: "0 < length (node_fields (meta (snapshot ex_chain)))"
    by (simp add: ex_chain_def ex_meta_def)
  have b2: "node_types (meta (snapshot ex_chain)) \<noteq> []"
    by (simp add: ex_chain_def ex_meta_def)
  have b3: "edge_types (meta (snapshot ex_chain)) \<noteq> []"
    by (simp add: ex_chain_def ex_meta_def)
  have b4: "node_fields (meta (snapshot ex_chain)) = ?v8 @ []"
    by (simp add: ex_chain_def ex_meta_def)
  have runb: "length (heapArray (projr (the (handleHeapData ex_chain)))) = 8"
    by code_simp
  from node_fields_read_at_fixed_columns [OF b1 b2 b3]
  obtain g' where g': "handleHeapData ex_chain = Some (Inr g')"
    and schema: "\<forall>rest. node_fields (meta (snapshot ex_chain)) = ?v8 @ rest \<longrightarrow>
        (\<forall>k < length (heapArray g').
           \<exists>ch. heapArray g' ! k =
             (schema_node ex_chain (node_types (meta (snapshot ex_chain)) ! 0)
                (k * length (node_fields (meta (snapshot ex_chain)))))\<lparr>children := ch\<rparr>)"
    by blast
  from g' runb have "1 < length (heapArray g')" by simp
  with schema b4 obtain ch where "heapArray g' ! 1 =
        (schema_node ex_chain (node_types (meta (snapshot ex_chain)) ! 0)
           (1 * length (node_fields (meta (snapshot ex_chain)))))\<lparr>children := ch\<rparr>"
    by blast
  with g' have partB: "\<exists>g ch. handleHeapData ex_chain = Some (Inr g) \<and>
      heapArray g ! 1 =
        (schema_node ex_chain (node_types (meta (snapshot ex_chain)) ! 0)
           (1 * length (node_fields (meta (snapshot ex_chain)))))\<lparr>children := ch\<rparr>"
    by blast
  show ?thesis
    by (intro conjI a1 a2 a3 a4 partA b1 b2 b3 b4 partB)
qed

text \<open>C8 as it is written fails on the swapped declaration: the code gives node 0 the
  type \<open>hidden\<close> and no name, read at columns 0 and 1, where the columns declared
  \<open>type\<close> and \<open>name\<close> give the type \<open>object\<close> and the name \<open>root\<close>.\<close>

theorem node_fields_swapped_counterexample:
  "node_fields (meta (snapshot ex_swapped))
     = [''name'', ''type'', ''id'', ''self_size'', ''edge_count'', ''trace_node_id''] \<and>
   map_option (map_sum id heapArray) (handleHeapData ex_swapped) =
     Some (Inr
       [\<lparr>d_index = Intg 0, d_type = Some ''hidden'', d_name = None, d_id = ''@1'',
         self_size = Some 0, retain_size = Some 0, edge_count = Some 0,
         trace_node_id = Some 0, children = [], retainedSize = None, distance = None\<rparr>,
        \<lparr>d_index = Intg 1, d_type = Some ''array'', d_name = None, d_id = ''@3'',
         self_size = Some 10, retain_size = Some 10, edge_count = Some 0,
         trace_node_id = Some 0, children = [], retainedSize = None, distance = None\<rparr>]) \<and>
   map (schema_node ex_swapped (node_types (meta (snapshot ex_swapped)) ! 0)) [0, 6] =
       [\<lparr>d_index = Intg 0, d_type = Some ''object'', d_name = Some ''root'', d_id = ''@1'',
         self_size = Some 0, retain_size = Some 0, edge_count = Some 0,
         trace_node_id = Some 0, children = [], retainedSize = None, distance = None\<rparr>,
        \<lparr>d_index = Intg 1, d_type = Some ''string'', d_name = Some ''a'', d_id = ''@3'',
         self_size = Some 10, retain_size = Some 10, edge_count = Some 0,
         trace_node_id = Some 0, children = [], retainedSize = None, distance = None\<rparr>] \<and>
   Some ''hidden'' \<noteq> Some ''object''"
  by code_simp

subsection \<open>The heap map\<close>

lemma foldl_put_node_other:
  "key \<notin> d_index ` set ns \<Longrightarrow> foldl put_node hm ns key = hm key"
  by (induction ns arbitrary: hm) (auto simp: put_node_def)

lemma foldl_put_node_lookup:
  "distinct (map d_index ns) \<Longrightarrow> k < length ns \<Longrightarrow>
   foldl put_node hm ns (d_index (ns ! k)) = Some (ns ! k)"
proof (induction ns arbitrary: hm k)
  case Nil
  then show ?case by simp
next
  case (Cons n ns)
  show ?case
  proof (cases k)
    case 0
    have "foldl put_node (put_node hm n) ns (d_index n) = put_node hm n (d_index n)"
      using Cons.prems(1) by (intro foldl_put_node_other) simp
    also have "\<dots> = Some n" by (simp add: put_node_def)
    finally show ?thesis using 0 by simp
  next
    case (Suc j)
    then show ?thesis using Cons by simp
  qed
qed

text \<open>\<open>heapMap\<close> holds the nodes of \<open>heapArray\<close> under their indices, so it is
  aligned with arrays that have one entry per node.\<close>

lemma heapMap_aligned:
  assumes "0 < length (node_fields (meta (snapshot heapData)))"
    and "node_types (meta (snapshot heapData)) \<noteq> []"
    and "edge_types (meta (snapshot heapData)) \<noteq> []"
  shows "\<exists>g. handleHeapData heapData = Some (Inr g) \<and>
     (\<forall>k < length (heapArray g). heapMap g (Intg k) = Some (heapArray g ! k))"
proof -
  let ?tbl = "node_types (meta (snapshot heapData)) ! 0"
  let ?etbl = "edge_types (meta (snapshot heapData)) ! 0"
  let ?g = "decoded_graph heapData ?tbl ?etbl"
  let ?ns = "decoded_nodes heapData ?tbl ?etbl 0"
  have r: "handleHeapData heapData = Some (Inr ?g)"
    using assms(1) table_present [OF assms(2)] table_present [OF assms(3)]
    by (rule handleHeapData_result)
  have idx: "d_index (?ns ! k) = Intg k" if "k < length ?ns" for k
    using that decoded_node_index [OF assms(1)] by (simp add: nth_decoded_nodes)
  have "map d_index ?ns = map Intg [0..<length ?ns]"
    by (rule nth_equalityI) (simp_all add: idx)
  then have d: "distinct (map d_index ?ns)"
    by (simp add: distinct_map inj_on_def)
  have "\<forall>k < length (heapArray ?g). heapMap ?g (Intg k) = Some (heapArray ?g ! k)"
    using foldl_put_node_lookup [OF d, of _ Map.empty] idx
    by (simp add: decoded_graph_def)
  with r show ?thesis by blast
qed

end
